theory Spec2Isabelle
  imports Complex_Main
begin

section \<open>Values, errors and numpy's one-dimensional arrays\<close>

text \<open>
  The program is a single Python function, \<open>three_tangle\<close>, with nested helper
  functions working on numpy arrays. A one-dimensional array is a list, a two-dimensional
  array a list of rows. The entries of an input array are finite: real numbers, or
  complex numbers. Rounding is not modelled. The codec only copies entries, and the
  reconstruction constraint is modelled on exact numbers; the tangle evaluator and the
  objective compute with floats that overflow to infinity and NaN (next section).
  Counts and dimensions (\<open>N\<close>, \<open>Nc\<close>, \<open>Np\<close>) are natural numbers. Every exception the
  code can raise is a value \<open>Inl e\<close>.
\<close>

datatype error = ValueError | IndexError

text \<open>
  An elementwise binary operation on two one-dimensional arrays follows numpy's
  broadcasting rule: the lengths must be equal, or one of them must be 1, in which case
  its single element is repeated; otherwise the operation raises ValueError.
\<close>

definition broadcast2 :: "('a \<Rightarrow> 'b \<Rightarrow> 'c) \<Rightarrow> 'a list \<Rightarrow> 'b list \<Rightarrow> error + 'c list" where
  "broadcast2 f xs ys =
     (if length xs = length ys then Inr (map2 f xs ys)
      else if length xs = 1 then Inr (map (f (xs ! 0)) ys)
      else if length ys = 1 then Inr (map (\<lambda>a. f a (ys ! 0)) xs)
      else Inl ValueError)"

text \<open>The slice \<open>x[a:b]\<close> for non-negative bounds; Python clamps it to the array.\<close>

definition slice :: "'a list \<Rightarrow> nat \<Rightarrow> nat \<Rightarrow> 'a list" where
  "slice x a b = take (b - a) (drop a x)"

text \<open>The read \<open>x[i]\<close> for a non-negative index; out of range it raises IndexError.\<close>

definition idx :: "'a list \<Rightarrow> nat \<Rightarrow> error + 'a" where
  "idx x i = (if i < length x then Inr (x ! i) else Inl IndexError)"

text \<open>The read \<open>m[i, j]\<close> of a two-dimensional array.\<close>

definition idx2 :: "'a list list \<Rightarrow> nat \<Rightarrow> nat \<Rightarrow> error + 'a" where
  "idx2 m i j = (case idx m i of Inl e \<Rightarrow> Inl e | Inr row \<Rightarrow> idx row j)"

text \<open>The write \<open>x[i] = v\<close> of one cell; out of range it raises IndexError.\<close>

definition store :: "'a list \<Rightarrow> nat \<Rightarrow> 'a \<Rightarrow> error + 'a list" where
  "store x i v = (if i < length x then Inr (x[i := v]) else Inl IndexError)"

text \<open>
  The write \<open>c[i] = v\<close> of a whole row of a two-dimensional array. The row index is
  resolved first (IndexError); then \<open>v\<close> is broadcast to the row's shape: its length must
  be the row's length or 1, otherwise ValueError.
\<close>

definition set_row :: "'a list list \<Rightarrow> nat \<Rightarrow> 'a list \<Rightarrow> error + 'a list list" where
  "set_row c i v =
     (if length c \<le> i then Inl IndexError
      else if length v = length (c ! i) then Inr (c[i := v])
      else if length v = 1 then Inr (c[i := replicate (length (c ! i)) (v ! 0)])
      else Inl ValueError)"

text \<open>Sequencing: an exception of the first computation ends the whole.\<close>

definition bind_res :: "error + 'a \<Rightarrow> ('a \<Rightarrow> error + 'b) \<Rightarrow> error + 'b" where
  "bind_res m f = (case m of Inl e \<Rightarrow> Inl e | Inr v \<Rightarrow> f v)"

text \<open>
  A \<open>for i in ...:\<close> loop over the given indices, threading the variables the body
  updates; an exception in the body leaves the loop.
\<close>

fun for_loop :: "nat list \<Rightarrow> (nat \<Rightarrow> 's \<Rightarrow> error + 's) \<Rightarrow> 's \<Rightarrow> error + 's" where
  "for_loop [] body s = Inr s"
| "for_loop (i # rest) body s = bind_res (body i s) (for_loop rest body)"

section \<open>Floats with overflow\<close>

text \<open>
  A float64 is a finite number, an infinity or NaN. A finite result of an operation is
  the exact real (no rounding); a result beyond the largest finite double overflows to
  the infinity of its sign. Infinities and NaN follow IEEE 754: \<open>inf - inf\<close> and
  \<open>0 * inf\<close> are NaN, and NaN propagates.
\<close>

datatype fl = Val real | PosInf | NegInf | NaN

definition max_float :: real where
  "max_float = (2 - 1 / 2 ^ 52) * 2 ^ 1023"

definition overflow :: "real \<Rightarrow> fl" where
  "overflow r = (if max_float < r then PosInf else if r < - max_float then NegInf else Val r)"

fun fadd :: "fl \<Rightarrow> fl \<Rightarrow> fl" where
  "fadd NaN b = NaN"
| "fadd a NaN = NaN"
| "fadd PosInf NegInf = NaN"
| "fadd NegInf PosInf = NaN"
| "fadd PosInf b = PosInf"
| "fadd NegInf b = NegInf"
| "fadd a PosInf = PosInf"
| "fadd a NegInf = NegInf"
| "fadd (Val a) (Val b) = overflow (a + b)"

fun fneg :: "fl \<Rightarrow> fl" where
  "fneg (Val a) = Val (- a)"
| "fneg PosInf = NegInf"
| "fneg NegInf = PosInf"
| "fneg NaN = NaN"

definition fsub :: "fl \<Rightarrow> fl \<Rightarrow> fl" where
  "fsub a b = fadd a (fneg b)"

text \<open>An infinity times a finite number: NaN for zero, otherwise the sign rule.\<close>

definition inf_times :: "fl \<Rightarrow> real \<Rightarrow> fl" where
  "inf_times i b = (if b = 0 then NaN else if 0 < b then i else fneg i)"

fun fmul :: "fl \<Rightarrow> fl \<Rightarrow> fl" where
  "fmul NaN b = NaN"
| "fmul a NaN = NaN"
| "fmul (Val a) (Val b) = overflow (a * b)"
| "fmul (Val a) PosInf = inf_times PosInf a"
| "fmul (Val a) NegInf = inf_times NegInf a"
| "fmul PosInf (Val b) = inf_times PosInf b"
| "fmul NegInf (Val b) = inf_times NegInf b"
| "fmul PosInf PosInf = PosInf"
| "fmul PosInf NegInf = NegInf"
| "fmul NegInf PosInf = NegInf"
| "fmul NegInf NegInf = PosInf"

text \<open>The comparison \<open>v < 0\<close>, false for NaN, and \<open>v\<close> being a non-negative real
  number or positive infinity.\<close>

definition lt0 :: "fl \<Rightarrow> bool" where
  "lt0 v = (case v of Val r \<Rightarrow> r < 0 | PosInf \<Rightarrow> False | NegInf \<Rightarrow> True | NaN \<Rightarrow> False)"

definition nonneg_or_inf :: "fl \<Rightarrow> bool" where
  "nonneg_or_inf v =
     (case v of Val r \<Rightarrow> 0 \<le> r | PosInf \<Rightarrow> True | NegInf \<Rightarrow> False | NaN \<Rightarrow> False)"

text \<open>
  A complex128 is a pair of floats. numpy adds and subtracts componentwise and
  multiplies by the textbook formula \<open>(a c - b d) + (a d + b c) i\<close>; a Python integer
  that meets a complex128 is first turned into a complex128 with imaginary part 0.
  \<open>np.abs\<close> of a complex128 is \<open>hypot\<close>: infinity if a component is infinite,
  otherwise NaN if a component is NaN, otherwise the modulus (overflowing if it must).
\<close>

type_synonym c128 = "fl \<times> fl"

definition c128_of :: "complex \<Rightarrow> c128" where
  "c128_of z = (Val (Re z), Val (Im z))"

definition cadd :: "c128 \<Rightarrow> c128 \<Rightarrow> c128" where
  "cadd z w = (fadd (fst z) (fst w), fadd (snd z) (snd w))"

definition csub :: "c128 \<Rightarrow> c128 \<Rightarrow> c128" where
  "csub z w = (fsub (fst z) (fst w), fsub (snd z) (snd w))"

definition cmul :: "c128 \<Rightarrow> c128 \<Rightarrow> c128" where
  "cmul z w = (fsub (fmul (fst z) (fst w)) (fmul (snd z) (snd w)),
               fadd (fmul (fst z) (snd w)) (fmul (snd z) (fst w)))"

definition is_inf :: "fl \<Rightarrow> bool" where
  "is_inf a = (a = PosInf \<or> a = NegInf)"

definition cabs :: "c128 \<Rightarrow> fl" where
  "cabs z =
     (case z of
        (Val a, Val b) \<Rightarrow> overflow (sqrt (a\<^sup>2 + b\<^sup>2))
      | (a, b) \<Rightarrow> if is_inf a \<or> is_inf b then PosInf else NaN)"

section \<open>Vector codec\<close>

text \<open>
  \<^verbatim>\<open>def real_to_complex(z): return z[:len(z) // 2] + 1j * z[len(z) // 2:]\<close>

  The product \<open>1j * z[...]\<close> multiplies every entry by the scalar; the sum is an
  elementwise operation on two arrays and is subject to broadcasting.
\<close>

definition real_to_complex :: "real list \<Rightarrow> error + complex list" where
  "real_to_complex z =
     broadcast2 (\<lambda>a b. complex_of_real a + b)
       (slice z 0 (length z div 2))
       (map (\<lambda>b. \<i> * complex_of_real b) (drop (length z div 2) z))"

text \<open>
  \<^verbatim>\<open>def complex_to_real(z): return np.concatenate((np.real(z), np.imag(z)))\<close>
\<close>

definition complex_to_real :: "complex list \<Rightarrow> real list" where
  "complex_to_real z = map Re z @ map Im z"

section \<open>Analytic tangle evaluator\<close>

text \<open>
  \<^verbatim>\<open>
  def theoretical_tangle(phi):
      d1 = phi[0] ** 2 * phi[7] ** 2 + phi[1] ** 2 * phi[6] ** 2 +
           phi[2] ** 2 * phi[5] ** 2 + phi[4] ** 2 * phi[3] ** 2
      d2 = phi[0] * phi[7] * phi[3] * phi[4] + phi[0] * phi[7] * phi[5] * phi[2] +
           phi[0] * phi[7] * phi[6] * phi[1] + phi[3] * phi[4] * phi[5] * phi[2] +
           phi[3] * phi[4] * phi[6] * phi[1] + phi[5] * phi[2] * phi[6] * phi[1]
      d3 = phi[0] * phi[6] * phi[5] * phi[3] + phi[7] * phi[1] * phi[2] * phi[4]
      tau = 4 * np.abs(d1 - 2 * d2 + 4 * d3)
      return tau
  \<close>
  \<open>theoretical_tangle\<close> reads the entries 0 to 7 of \<open>phi\<close>; on an array shorter than 8
  one of these reads raises IndexError, and no other failure is possible. The entries
  are complex128 scalars; \<open>phi[i] ** 2\<close> is the product of the entry with itself, and
  products and sums associate to the left.
\<close>

definition theoretical_tangle :: "complex list \<Rightarrow> error + fl" where
  "theoretical_tangle phi =
     (if length phi < 8 then Inl IndexError
      else
        let p = (\<lambda>i. c128_of (phi ! i));
            sq = (\<lambda>i. cmul (p i) (p i));
            prod = (\<lambda>i j k l. cmul (cmul (cmul (p i) (p j)) (p k)) (p l));
            d1 = cadd (cadd (cadd (cmul (sq 0) (sq 7)) (cmul (sq 1) (sq 6)))
                   (cmul (sq 2) (sq 5))) (cmul (sq 4) (sq 3));
            d2 = cadd (cadd (cadd (cadd (cadd (prod 0 7 3 4) (prod 0 7 5 2))
                   (prod 0 7 6 1)) (prod 3 4 5 2)) (prod 3 4 6 1)) (prod 5 2 6 1);
            d3 = cadd (prod 0 6 5 3) (prod 7 1 2 4);
            tau = fmul (Val 4)
                    (cabs (cadd (csub d1 (cmul (c128_of 2) d2)) (cmul (c128_of 4) d3)))
        in Inr tau)"

text \<open>
  The value of the formula in exact arithmetic, the bound on the real and imaginary
  parts of the amplitudes under which no intermediate result overflows, and the relation
  "the complex128 \<open>z\<close> is the complex number \<open>c\<close>, whose parts are at most \<open>M\<close> in
  magnitude" (the last two are used in the proofs only).
\<close>

definition tangle_formula :: "complex list \<Rightarrow> real" where
  "tangle_formula phi =
     4 * cmod
       (((phi ! 0)\<^sup>2 * (phi ! 7)\<^sup>2 + (phi ! 1)\<^sup>2 * (phi ! 6)\<^sup>2 +
         (phi ! 2)\<^sup>2 * (phi ! 5)\<^sup>2 + (phi ! 4)\<^sup>2 * (phi ! 3)\<^sup>2)
        - 2 * (phi ! 0 * phi ! 7 * phi ! 3 * phi ! 4 + phi ! 0 * phi ! 7 * phi ! 5 * phi ! 2 +
               phi ! 0 * phi ! 7 * phi ! 6 * phi ! 1 + phi ! 3 * phi ! 4 * phi ! 5 * phi ! 2 +
               phi ! 3 * phi ! 4 * phi ! 6 * phi ! 1 + phi ! 5 * phi ! 2 * phi ! 6 * phi ! 1)
        + 4 * (phi ! 0 * phi ! 6 * phi ! 5 * phi ! 3 + phi ! 7 * phi ! 1 * phi ! 2 * phi ! 4))"

definition tangle_bound :: real where
  "tangle_bound = 10 ^ 75"

definition tracks :: "real \<Rightarrow> c128 \<Rightarrow> complex \<Rightarrow> bool" where
  "tracks M z c = (z = (Val (Re c), Val (Im c)) \<and> \<bar>Re c\<bar> \<le> M \<and> \<bar>Im c\<bar> \<le> M)"

section \<open>Decomposition objective\<close>

text \<open>
  \<^verbatim>\<open>
  def objective(x, Nc, Np):
      p = x[:Np]
      result = 0
      for i in range(Np):
          j = Np + i * 2 * Nc
          c = real_to_complex(x[j:j + 2 * Nc])
          result += p[i] * theoretical_tangle(c)
      return result
  \<close>
  The weight \<open>p[i]\<close> and the tangle are floats; their product and the running sum can
  overflow.
\<close>

definition objective :: "real list \<Rightarrow> nat \<Rightarrow> nat \<Rightarrow> error + fl" where
  "objective x Nc Np =
     (let p = slice x 0 Np in
      for_loop [0..<Np]
        (\<lambda>i result.
           let j = Np + i * 2 * Nc in
           bind_res (real_to_complex (slice x j (j + 2 * Nc))) (\<lambda>c.
           bind_res (idx p i) (\<lambda>w.
           bind_res (theoretical_tangle c) (\<lambda>tau.
           Inr (fadd result (fmul (Val w) tau))))))
        (Val 0))"

section \<open>Reconstruction constraint\<close>

text \<open>
  \<open>cons3\<close> reads \<open>Nc\<close>, \<open>Np\<close> and \<open>rho\<close> from the enclosing call; here they are
  parameters. The first loop decodes the state vectors into the rows of an \<open>Nc\<close> by
  \<open>Nc\<close> buffer of zeros:
  \<^verbatim>\<open>
      p = x[:Np]
      c = np.zeros((Nc, Nc), dtype=complex)
      for i in range(Np):
          j = Np + i * 2 * Nc
          c[i] = real_to_complex(x[j:j + 2 * Nc])
  \<close>
\<close>

definition cons3_rows :: "nat \<Rightarrow> nat \<Rightarrow> real list \<Rightarrow> error + complex list list" where
  "cons3_rows Nc Np x =
     for_loop [0..<Np]
       (\<lambda>i c.
          let j = Np + i * 2 * Nc in
          bind_res (real_to_complex (slice x j (j + 2 * Nc))) (\<lambda>v.
          set_row c i v))
       (replicate Nc (replicate Nc 0))"

text \<open>
  The innermost loop accumulates one entry of the candidate matrix:
  \<^verbatim>\<open>
      res = 0
      for k in range(Np):
          res += p[k] * c[k, i] * np.conj(c[k, j])
  \<close>
\<close>

definition cons3_sum ::
  "nat \<Rightarrow> real list \<Rightarrow> complex list list \<Rightarrow> nat \<Rightarrow> nat \<Rightarrow> error + complex" where
  "cons3_sum Np p c i j =
     for_loop [0..<Np]
       (\<lambda>k res.
          bind_res (idx p k) (\<lambda>w.
          bind_res (idx2 c k i) (\<lambda>a.
          bind_res (idx2 c k j) (\<lambda>b.
          Inr (res + complex_of_real w * a * cnj b)))))
       0"

text \<open>
  The body of the two outer loops subtracts the target entry and stores the real and the
  imaginary part, row-major:
  \<^verbatim>\<open>
      res -= rho[i, j]
      reals[i * Nc + j] = np.real(res)
      imags[i * Nc + j] = np.imag(res)
  \<close>
\<close>

definition cons3_entry ::
  "nat \<Rightarrow> nat \<Rightarrow> complex list list \<Rightarrow> real list \<Rightarrow> complex list list \<Rightarrow> nat \<Rightarrow> nat \<Rightarrow>
   real list \<times> real list \<Rightarrow> error + real list \<times> real list" where
  "cons3_entry Nc Np rho p c i j st =
     bind_res (cons3_sum Np p c i j) (\<lambda>res0.
     bind_res (idx2 rho i j) (\<lambda>r.
     let res = res0 - r in
     bind_res (store (fst st) (i * Nc + j) (Re res)) (\<lambda>reals.
     bind_res (store (snd st) (i * Nc + j) (Im res)) (\<lambda>imags.
     Inr (reals, imags)))))"

definition cons3 :: "nat \<Rightarrow> nat \<Rightarrow> complex list list \<Rightarrow> real list \<Rightarrow> error + real list" where
  "cons3 Nc Np rho x =
     (let p = slice x 0 Np in
      bind_res (cons3_rows Nc Np x) (\<lambda>c.
      bind_res
        (for_loop [0..<Nc]
           (\<lambda>i. for_loop [0..<Nc] (\<lambda>j. cons3_entry Nc Np rho p c i j))
           (replicate (Nc\<^sup>2) 0, replicate (Nc\<^sup>2) 0))
        (\<lambda>st. Inr (fst st @ snd st))))"

text \<open>
  The parameter vector that encodes weights \<open>p\<close> and state vectors \<open>cs\<close>, built as the
  driver builds its starting point: the weights, then each state vector through
  \<open>complex_to_real\<close>.
\<close>

definition encode :: "real list \<Rightarrow> complex list list \<Rightarrow> real list" where
  "encode p cs = p @ concat (map complex_to_real cs)"

section \<open>Multi-start search driver\<close>

text \<open>
  The cells of the float array \<open>tangles\<close> hold a finite number, an infinity or NaN.
  The comparison \<open>v < 0\<close> is false for NaN, and numpy's minimum returns NaN as soon as
  one operand is NaN.
\<close>

fun fmin :: "fl \<Rightarrow> fl \<Rightarrow> fl" where
  "fmin NaN b = NaN"
| "fmin a NaN = NaN"
| "fmin NegInf b = NegInf"
| "fmin a NegInf = NegInf"
| "fmin PosInf b = b"
| "fmin a PosInf = a"
| "fmin (Val a) (Val b) = Val (min a b)"

text \<open>\<open>np.min\<close> of a one-dimensional array; on an empty array it raises ValueError.\<close>

definition np_min :: "fl list \<Rightarrow> error + fl" where
  "np_min a = (case a of [] \<Rightarrow> Inl ValueError | v # vs \<Rightarrow> Inr (fold fmin vs v))"

text \<open>
  The random starting point and scipy's \<open>minimize\<close> are outside the program. The call
  of start \<open>j\<close>,
  \<^verbatim>\<open>minimize(objective, x0, args=(Nc, Np), method='trust-constr', ...)['fun']\<close>,
  either raises or yields a float; \<open>minimize j\<close> is that outcome. The arguments
  \<open>rho\<close>, \<open>error\<close>, \<open>Nc\<close>, \<open>Np\<close> and \<open>solver_options\<close> of \<open>three_tangle\<close> reach
  only this call (through the objective, the constraints, the bounds and the starting
  point), so a statement for every \<open>minimize\<close> is a statement for every choice of them.
  Building the constraints, the bounds and the starting point raises nothing.
\<close>

datatype outcome = Raises | Fun fl

text \<open>
  One pass of the loop body on the array \<open>tangles\<close>:
  \<^verbatim>\<open>
      try:
          tangles[j] = minimize(...)['fun']
      except:
          pass
      if tangles[j] < 0:
          tangles[j] = np.inf
  \<close>
\<close>

definition start :: "(nat \<Rightarrow> outcome) \<Rightarrow> nat \<Rightarrow> fl list \<Rightarrow> error + fl list" where
  "start minimize j tangles =
     (let tangles1 =
        (case minimize j of
           Raises \<Rightarrow> tangles
         | Fun v \<Rightarrow> (case store tangles j v of Inl e \<Rightarrow> tangles | Inr t \<Rightarrow> t))
      in bind_res (idx tangles1 j) (\<lambda>v.
         if lt0 v then store tangles1 j PosInf else Inr tangles1))"

text \<open>
  The array after the loop, \<open>tangles = np.zeros(N)\<close> followed by \<open>N\<close> passes, and the
  result \<open>np.min(tangles)\<close>.
\<close>

definition tangles_after :: "(nat \<Rightarrow> outcome) \<Rightarrow> nat \<Rightarrow> error + fl list" where
  "tangles_after minimize N = for_loop [0..<N] (start minimize) (replicate N (Val 0))"

definition three_tangle :: "(nat \<Rightarrow> outcome) \<Rightarrow> nat \<Rightarrow> error + fl" where
  "three_tangle minimize N = bind_res (tangles_after minimize N) np_min"

text \<open>
  The value one pass leaves in the cell of its start, as a function of the solver's
  outcome (lemma \<open>tangles_after_eq\<close> below proves it from the loop).
\<close>

definition recorded :: "outcome \<Rightarrow> fl" where
  "recorded r = (case r of Raises \<Rightarrow> Val 0 | Fun v \<Rightarrow> if lt0 v then PosInf else v)"

section \<open>Concrete inputs\<close>

text \<open>Solvers that raise on every start, that raise on start 1 only (and report 3
  elsewhere), that report NaN on every start, and that report \<open>-1\<close> on start 0 only
  (and 2 elsewhere).\<close>

definition always_raises :: "nat \<Rightarrow> outcome" where
  "always_raises j = Raises"

definition raises_at_1 :: "nat \<Rightarrow> outcome" where
  "raises_at_1 j = (if j = 1 then Raises else Fun (Val 3))"

definition always_nan :: "nat \<Rightarrow> outcome" where
  "always_nan j = Fun NaN"

definition negative_at_0 :: "nat \<Rightarrow> outcome" where
  "negative_at_0 j = (if j = 0 then Fun (Val (- 1)) else Fun (Val 2))"

text \<open>
  Nine equal weights, nine copies of the basis state \<open>|000>\<close> of dimension 8, and the
  projector on that state.
\<close>

definition basis_000 :: "complex list" where
  "basis_000 = 1 # replicate 7 0"

definition nine_weights :: "real list" where
  "nine_weights = replicate 9 (1 / 9)"

definition nine_states :: "complex list list" where
  "nine_states = replicate 9 basis_000"

definition rho_000 :: "complex list list" where
  "rho_000 = (1 # replicate 7 0) # replicate 7 (replicate 8 0)"

text \<open>The GHZ state \<open>(|000> + |111>) / sqrt 2\<close> as an amplitude vector.\<close>

definition ghz :: "complex list" where
  "ghz = [complex_of_real (1 / sqrt 2), 0, 0, 0, 0, 0, 0, complex_of_real (1 / sqrt 2)]"

section \<open>Helper lemmas\<close>

lemma bind_res_simps [simp]:
  "bind_res (Inl e) f = Inl e"
  "bind_res (Inr v) f = f v"
  by (simp_all add: bind_res_def)

lemma for_loop_append:
  "for_loop (xs @ ys) body s = bind_res (for_loop xs body s) (for_loop ys body)"
proof (induction xs arbitrary: s)
  case Nil
  show ?case by simp
next
  case (Cons i xs)
  show ?case
    by (cases "body i s") (simp_all add: Cons.IH)
qed

lemma for_loop_Suc:
  "for_loop [0..<Suc n] body s = bind_res (for_loop [0..<n] body s) (body n)"
proof -
  have "for_loop [n] body = body n"
    by (rule ext) (simp add: bind_res_def split: sum.splits)
  then show ?thesis
    by (simp add: for_loop_append)
qed

lemma for_loop_total:
  assumes "P s"
    and "\<And>i s. i \<in> set ixs \<Longrightarrow> P s \<Longrightarrow> \<exists>s'. body i s = Inr s' \<and> P s'"
  shows "\<exists>s'. for_loop ixs body s = Inr s' \<and> P s'"
  using assms
proof (induction ixs arbitrary: s)
  case Nil
  then show ?case by simp
next
  case (Cons i ixs)
  from Cons.prems obtain s1 where s1: "body i s = Inr s1" "P s1"
    by (meson list.set_intros(1))
  have "\<exists>s'. for_loop ixs body s1 = Inr s' \<and> P s'"
    using s1(2) Cons.prems(2) by (intro Cons.IH) simp_all
  with s1(1) show ?case by simp
qed

lemma for_loop_invariant:
  assumes "for_loop ixs body s = Inr s'" and "P s"
    and "\<And>i s s'. i \<in> set ixs \<Longrightarrow> P s \<Longrightarrow> body i s = Inr s' \<Longrightarrow> P s'"
  shows "P s'"
  using assms
proof (induction ixs arbitrary: s)
  case Nil
  then show ?case by simp
next
  case (Cons i ixs)
  from Cons.prems(1) obtain s1 where s1: "body i s = Inr s1" "for_loop ixs body s1 = Inr s'"
    by (cases "body i s") simp_all
  have "P s1"
    using Cons.prems(2) s1(1) by (intro Cons.prems(3) [of i s s1]) simp_all
  show ?case
  proof (rule Cons.IH [OF s1(2) \<open>P s1\<close>])
    fix j t t'
    assume "j \<in> set ixs" and "P t" and "body j t = Inr t'"
    then show "P t'"
      using Cons.prems(3) [of j t t'] by simp
  qed
qed

subsection \<open>Floats\<close>

lemma max_float_big: "10 ^ 308 \<le> max_float"
  by (simp add: max_float_def)

lemma below_cap: "x \<le> 10 ^ 304 \<Longrightarrow> x \<le> max_float"
  using max_float_big by (rule order_trans [rotated]) simp

lemma max_float_below: "max_float < 10 ^ 400"
  by (simp add: max_float_def)

lemma max_float_pos: "0 < max_float"
  using max_float_big by (rule less_le_trans [rotated]) simp

lemma overflow_id: "\<bar>r\<bar> \<le> max_float \<Longrightarrow> overflow r = Val r"
  by (auto simp: overflow_def)

lemma tracks_mono: "tracks M z c \<Longrightarrow> M \<le> M' \<Longrightarrow> tracks M' z c"
  by (auto simp: tracks_def)

lemma tracks_c128_of: "\<bar>Re c\<bar> \<le> M \<Longrightarrow> \<bar>Im c\<bar> \<le> M \<Longrightarrow> tracks M (c128_of c) c"
  by (simp add: tracks_def c128_of_def)

lemma abs_mult_le:
  fixes a b :: real
  assumes "\<bar>a\<bar> \<le> M" and "\<bar>b\<bar> \<le> K"
  shows "\<bar>a * b\<bar> \<le> M * K"
  unfolding abs_mult using assms by (intro mult_mono) simp_all

lemma tracks_cmul:
  assumes "tracks M z c" and "tracks K w d" and "2 * (M * K) \<le> max_float"
  shows "tracks (2 * (M * K)) (cmul z w) (c * d)"
proof -
  from assms(1) have z: "z = (Val (Re c), Val (Im c))" and c: "\<bar>Re c\<bar> \<le> M" "\<bar>Im c\<bar> \<le> M"
    by (simp_all add: tracks_def)
  from assms(2) have w: "w = (Val (Re d), Val (Im d))" and d: "\<bar>Re d\<bar> \<le> K" "\<bar>Im d\<bar> \<le> K"
    by (simp_all add: tracks_def)
  have p: "\<bar>Re c * Re d\<bar> \<le> M * K" "\<bar>Im c * Im d\<bar> \<le> M * K"
    "\<bar>Re c * Im d\<bar> \<le> M * K" "\<bar>Im c * Re d\<bar> \<le> M * K"
    using c d by (simp_all add: abs_mult_le)
  then have "0 \<le> M * K"
    by linarith
  with assms(3) have mk: "M * K \<le> max_float"
    by linarith
  have re: "\<bar>Re c * Re d - Im c * Im d\<bar> \<le> 2 * (M * K)"
    using p by linarith
  have im: "\<bar>Re c * Im d + Im c * Re d\<bar> \<le> 2 * (M * K)"
    using p by linarith
  have m: "overflow (Re c * Re d) = Val (Re c * Re d)"
    "overflow (Im c * Im d) = Val (Im c * Im d)"
    "overflow (Re c * Im d) = Val (Re c * Im d)"
    "overflow (Im c * Re d) = Val (Im c * Re d)"
    using p mk by (simp_all add: overflow_id)
  have "cmul z w = (Val (Re c * Re d - Im c * Im d), Val (Re c * Im d + Im c * Re d))"
    using re im assms(3) by (simp add: cmul_def z w m fsub_def overflow_id)
  then show ?thesis
    using re im by (simp add: tracks_def)
qed

lemma tracks_cadd:
  assumes "tracks M z c" and "tracks K w d" and "M + K \<le> max_float"
  shows "tracks (M + K) (cadd z w) (c + d)"
proof -
  from assms(1) have z: "z = (Val (Re c), Val (Im c))" and c: "\<bar>Re c\<bar> \<le> M" "\<bar>Im c\<bar> \<le> M"
    by (simp_all add: tracks_def)
  from assms(2) have w: "w = (Val (Re d), Val (Im d))" and d: "\<bar>Re d\<bar> \<le> K" "\<bar>Im d\<bar> \<le> K"
    by (simp_all add: tracks_def)
  have re: "\<bar>Re c + Re d\<bar> \<le> M + K" and im: "\<bar>Im c + Im d\<bar> \<le> M + K"
    using c d by linarith+
  then show ?thesis
    using assms(3) by (simp add: tracks_def cadd_def z w overflow_id)
qed

lemma tracks_csub:
  assumes "tracks M z c" and "tracks K w d" and "M + K \<le> max_float"
  shows "tracks (M + K) (csub z w) (c - d)"
proof -
  from assms(1) have z: "z = (Val (Re c), Val (Im c))" and c: "\<bar>Re c\<bar> \<le> M" "\<bar>Im c\<bar> \<le> M"
    by (simp_all add: tracks_def)
  from assms(2) have w: "w = (Val (Re d), Val (Im d))" and d: "\<bar>Re d\<bar> \<le> K" "\<bar>Im d\<bar> \<le> K"
    by (simp_all add: tracks_def)
  have re: "\<bar>Re c - Re d\<bar> \<le> M + K" and im: "\<bar>Im c - Im d\<bar> \<le> M + K"
    using c d by linarith+
  then show ?thesis
    using assms(3) by (simp add: tracks_def csub_def fsub_def z w overflow_id)
qed

lemma cabs_tracks:
  assumes "tracks M z c" and "2 * M \<le> max_float"
  shows "cabs z = Val (cmod c)"
proof -
  from assms(1) have z: "z = (Val (Re c), Val (Im c))" and c: "\<bar>Re c\<bar> \<le> M" "\<bar>Im c\<bar> \<le> M"
    by (simp_all add: tracks_def)
  have "cmod c \<le> \<bar>Re c\<bar> + \<bar>Im c\<bar>"
    by (rule cmod_le)
  with c assms(2) have "\<bar>cmod c\<bar> \<le> max_float"
    by simp
  then show ?thesis
    by (simp add: cabs_def z overflow_id cmod_def)
qed


lemma tau_tracks:
  assumes "tracks M z c" and "8 * M \<le> max_float"
  shows "fmul (Val 4) (cabs z) = Val (4 * cmod c)"
proof -
  from assms(1) have c: "\<bar>Re c\<bar> \<le> M" "\<bar>Im c\<bar> \<le> M"
    by (simp_all add: tracks_def)
  have "cmod c \<le> \<bar>Re c\<bar> + \<bar>Im c\<bar>"
    by (rule cmod_le)
  with c have le: "cmod c \<le> 2 * M" and M: "0 \<le> M"
    by linarith+
  from M assms(2) have "2 * M \<le> max_float"
    by linarith
  with assms(1) have "cabs z = Val (cmod c)"
    by (rule cabs_tracks)
  moreover have "\<bar>4 * cmod c\<bar> \<le> max_float"
    using le assms(2) by simp
  ultimately show ?thesis
    by (simp add: overflow_id)
qed

lemma tracks_sq_prod:
  assumes "tracks tangle_bound z1 c1" and "tracks tangle_bound z2 c2"
  shows "tracks (8 * tangle_bound ^ 4) (cmul (cmul z1 z1) (cmul z2 z2)) (c1\<^sup>2 * c2\<^sup>2)"
proof -
  have s1: "tracks (2 * (tangle_bound * tangle_bound)) (cmul z1 z1) (c1 * c1)"
    using assms(1) assms(1) by (rule tracks_cmul) (rule below_cap, simp add: tangle_bound_def)
  have s2: "tracks (2 * (tangle_bound * tangle_bound)) (cmul z2 z2) (c2 * c2)"
    using assms(2) assms(2) by (rule tracks_cmul) (rule below_cap, simp add: tangle_bound_def)
  have "tracks (2 * (2 * (tangle_bound * tangle_bound) * (2 * (tangle_bound * tangle_bound))))
          (cmul (cmul z1 z1) (cmul z2 z2)) (c1 * c1 * (c2 * c2))"
    using s1 s2 by (rule tracks_cmul) (rule below_cap, simp add: tangle_bound_def)
  then have "tracks (8 * tangle_bound ^ 4) (cmul (cmul z1 z1) (cmul z2 z2)) (c1 * c1 * (c2 * c2))"
    by (rule tracks_mono) (simp add: tangle_bound_def)
  then show ?thesis
    by (simp only: power2_eq_square)
qed

lemma tracks_prod4:
  assumes "tracks tangle_bound z1 c1" and "tracks tangle_bound z2 c2"
    and "tracks tangle_bound z3 c3" and "tracks tangle_bound z4 c4"
  shows "tracks (8 * tangle_bound ^ 4) (cmul (cmul (cmul z1 z2) z3) z4) (c1 * c2 * c3 * c4)"
proof -
  have s1: "tracks (2 * (tangle_bound * tangle_bound)) (cmul z1 z2) (c1 * c2)"
    using assms(1,2) by (rule tracks_cmul) (rule below_cap, simp add: tangle_bound_def)
  have s2: "tracks (2 * (2 * (tangle_bound * tangle_bound) * tangle_bound))
              (cmul (cmul z1 z2) z3) (c1 * c2 * c3)"
    using s1 assms(3) by (rule tracks_cmul) (rule below_cap, simp add: tangle_bound_def)
  have "tracks (2 * (2 * (2 * (tangle_bound * tangle_bound) * tangle_bound) * tangle_bound))
          (cmul (cmul (cmul z1 z2) z3) z4) (c1 * c2 * c3 * c4)"
    using s2 assms(4) by (rule tracks_cmul) (rule below_cap, simp add: tangle_bound_def)
  then show ?thesis
    by (rule tracks_mono) (simp add: tangle_bound_def)
qed

lemma theoretical_tangle_bounded:
  assumes len: "8 \<le> length phi"
    and bnd: "\<forall>i<8. \<bar>Re (phi ! i)\<bar> \<le> tangle_bound \<and> \<bar>Im (phi ! i)\<bar> \<le> tangle_bound"
  shows "theoretical_tangle phi = Inr (Val (tangle_formula phi))"
proof -
  define T where "T = 8 * tangle_bound ^ 4"
  define p where "p = (\<lambda>i. c128_of (phi ! i))"
  define sq where "sq = (\<lambda>i. cmul (p i) (p i))"
  define prod where "prod = (\<lambda>i j k l. cmul (cmul (cmul (p i) (p j)) (p k)) (p l))"
  have T: "T = 8 * 10 ^ 300"
    by (simp add: T_def tangle_bound_def)
  have e: "tracks tangle_bound (p i) (phi ! i)" if "i < 8" for i
    using bnd that by (simp add: p_def tracks_c128_of)
  have s: "tracks T (cmul (sq i) (sq j)) ((phi ! i)\<^sup>2 * (phi ! j)\<^sup>2)"
    if "i < 8" "j < 8" for i j
    unfolding T_def sq_def using e [OF that(1)] e [OF that(2)] by (rule tracks_sq_prod)
  have q: "tracks T (prod i j k l) (phi ! i * phi ! j * phi ! k * phi ! l)"
    if "i < 8" "j < 8" "k < 8" "l < 8" for i j k l
    unfolding T_def prod_def
    using e [OF that(1)] e [OF that(2)] e [OF that(3)] e [OF that(4)] by (rule tracks_prod4)
  have cap: "k * T \<le> max_float" if "k \<le> 1000" for k
  proof (rule below_cap)
    from that have "k * T \<le> 1000 * T"
      by (intro mult_right_mono) (simp_all add: T)
    then show "k * T \<le> 10 ^ 304"
      by (simp add: T)
  qed
  let ?d1 = "cadd (cadd (cadd (cmul (sq 0) (sq 7)) (cmul (sq 1) (sq 6)))
                   (cmul (sq 2) (sq 5))) (cmul (sq 4) (sq 3))"
  let ?d2 = "cadd (cadd (cadd (cadd (cadd (prod 0 7 3 4) (prod 0 7 5 2))
                   (prod 0 7 6 1)) (prod 3 4 5 2)) (prod 3 4 6 1)) (prod 5 2 6 1)"
  let ?d3 = "cadd (prod 0 6 5 3) (prod 7 1 2 4)"
  let ?c1 = "(phi ! 0)\<^sup>2 * (phi ! 7)\<^sup>2 + (phi ! 1)\<^sup>2 * (phi ! 6)\<^sup>2 +
         (phi ! 2)\<^sup>2 * (phi ! 5)\<^sup>2 + (phi ! 4)\<^sup>2 * (phi ! 3)\<^sup>2"
  let ?c2 = "phi ! 0 * phi ! 7 * phi ! 3 * phi ! 4 + phi ! 0 * phi ! 7 * phi ! 5 * phi ! 2 +
               phi ! 0 * phi ! 7 * phi ! 6 * phi ! 1 + phi ! 3 * phi ! 4 * phi ! 5 * phi ! 2 +
               phi ! 3 * phi ! 4 * phi ! 6 * phi ! 1 + phi ! 5 * phi ! 2 * phi ! 6 * phi ! 1"
  let ?c3 = "phi ! 0 * phi ! 6 * phi ! 5 * phi ! 3 + phi ! 7 * phi ! 1 * phi ! 2 * phi ! 4"
  have s07: "tracks T (cmul (sq 0) (sq 7)) ((phi ! 0)\<^sup>2 * (phi ! 7)\<^sup>2)"
    and s16: "tracks T (cmul (sq 1) (sq 6)) ((phi ! 1)\<^sup>2 * (phi ! 6)\<^sup>2)"
    and s25: "tracks T (cmul (sq 2) (sq 5)) ((phi ! 2)\<^sup>2 * (phi ! 5)\<^sup>2)"
    and s43: "tracks T (cmul (sq 4) (sq 3)) ((phi ! 4)\<^sup>2 * (phi ! 3)\<^sup>2)"
    by (rule s; simp)+
  have q0734: "tracks T (prod 0 7 3 4) (phi ! 0 * phi ! 7 * phi ! 3 * phi ! 4)"
    and q0752: "tracks T (prod 0 7 5 2) (phi ! 0 * phi ! 7 * phi ! 5 * phi ! 2)"
    and q0761: "tracks T (prod 0 7 6 1) (phi ! 0 * phi ! 7 * phi ! 6 * phi ! 1)"
    and q3452: "tracks T (prod 3 4 5 2) (phi ! 3 * phi ! 4 * phi ! 5 * phi ! 2)"
    and q3461: "tracks T (prod 3 4 6 1) (phi ! 3 * phi ! 4 * phi ! 6 * phi ! 1)"
    and q5261: "tracks T (prod 5 2 6 1) (phi ! 5 * phi ! 2 * phi ! 6 * phi ! 1)"
    and q0653: "tracks T (prod 0 6 5 3) (phi ! 0 * phi ! 6 * phi ! 5 * phi ! 3)"
    and q7124: "tracks T (prod 7 1 2 4) (phi ! 7 * phi ! 1 * phi ! 2 * phi ! 4)"
    by (rule q; simp)+
  have side: "T + T \<le> max_float" "T + T + T \<le> max_float" "T + T + T + T \<le> max_float"
    "T + T + T + T + T \<le> max_float" "T + T + T + T + T + T \<le> max_float"
    "2 * (2 * (T + T + T + T + T + T)) \<le> max_float" "2 * (4 * (T + T)) \<le> max_float"
    "T + T + T + T + 2 * (2 * (T + T + T + T + T + T)) \<le> max_float"
    "T + T + T + T + 2 * (2 * (T + T + T + T + T + T)) + 2 * (4 * (T + T)) \<le> max_float"
    "8 * (T + T + T + T + 2 * (2 * (T + T + T + T + T + T)) + 2 * (4 * (T + T))) \<le> max_float"
    using cap [of 2] cap [of 3] cap [of 4] cap [of 5] cap [of 6] cap [of 24] cap [of 16]
      cap [of 28] cap [of 44] cap [of 352]
    by simp_all
  note d1a = tracks_cadd [OF s07 s16 side(1)]
  note d1b = tracks_cadd [OF d1a s25 side(2)]
  note d1 = tracks_cadd [OF d1b s43 side(3)]
  note d2a = tracks_cadd [OF q0734 q0752 side(1)]
  note d2b = tracks_cadd [OF d2a q0761 side(2)]
  note d2c = tracks_cadd [OF d2b q3452 side(3)]
  note d2d = tracks_cadd [OF d2c q3461 side(4)]
  note d2 = tracks_cadd [OF d2d q5261 side(5)]
  note d3 = tracks_cadd [OF q0653 q7124 side(1)]
  have two: "tracks 2 (c128_of 2) 2" and four: "tracks 4 (c128_of 4) 4"
    by (simp_all add: tracks_c128_of)
  note m2 = tracks_cmul [OF two d2 side(6)]
  note m3 = tracks_cmul [OF four d3 side(7)]
  note df = tracks_csub [OF d1 m2 side(8)]
  note tot = tracks_cadd [OF df m3 side(9)]
  note tau = tau_tracks [OF tot side(10)]
  have nl: "\<not> length phi < 8"
    using len by simp
  show ?thesis
    unfolding theoretical_tangle_def tangle_formula_def Let_def
    using tau [unfolded sq_def prod_def p_def]
    by (simp only: if_not_P [OF nl])
qed

lemma overflow_0: "overflow 0 = Val 0"
  using max_float_pos by (simp add: overflow_id)

lemma overflow_big: "max_float < r \<Longrightarrow> overflow r = PosInf"
  by (simp add: overflow_def)

lemma tangle_overflow:
  assumes "0 < h" and "max_float < h * h"
  shows "theoretical_tangle (replicate 8 (complex_of_real h)) = Inr NaN"
proof -
  define z where "z = c128_of (complex_of_real h)"
  have z: "z = (Val h, Val 0)"
    by (simp add: z_def c128_of_def)
  have sq: "cmul z z = (PosInf, Val 0)"
    by (simp add: z cmul_def fsub_def overflow_0 overflow_big [OF assms(2)])
  have d: "cmul (PosInf, Val 0) (PosInf, Val 0) = (PosInf, NaN)"
    by (simp add: cmul_def fsub_def overflow_0 inf_times_def)
  have p3: "cmul (PosInf, Val 0) z = (PosInf, NaN)"
    using assms(1) by (simp add: z cmul_def fsub_def overflow_0 inf_times_def)
  have p4: "cmul (PosInf, NaN) z = (NaN, NaN)"
    using assms(1) by (simp add: z cmul_def fsub_def inf_times_def)
  have mul_nan: "fmul a NaN = NaN" for a
    by (cases a) simp_all
  have nan: "cmul w (NaN, NaN) = (NaN, NaN)" for w
    by (simp add: cmul_def fsub_def mul_nan)
  have "theoretical_tangle (replicate 8 (complex_of_real h))
        = Inr (fmul (Val 4) (cabs (cadd (csub
            (cadd (cadd (cadd (cmul (cmul z z) (cmul z z)) (cmul (cmul z z) (cmul z z)))
               (cmul (cmul z z) (cmul z z))) (cmul (cmul z z) (cmul z z)))
            (cmul (c128_of 2)
               (cadd (cadd (cadd (cadd (cadd (cmul (cmul (cmul z z) z) z)
                  (cmul (cmul (cmul z z) z) z)) (cmul (cmul (cmul z z) z) z))
                  (cmul (cmul (cmul z z) z) z)) (cmul (cmul (cmul z z) z) z))
                  (cmul (cmul (cmul z z) z) z))))
            (cmul (c128_of 4)
               (cadd (cmul (cmul (cmul z z) z) z) (cmul (cmul (cmul z z) z) z))))))"
    unfolding theoretical_tangle_def Let_def z_def by simp
  also have "\<dots> = Inr NaN"
    unfolding sq d p3 p4 by (simp add: cadd_def csub_def fsub_def cabs_def is_inf_def nan)
  finally show ?thesis .
qed

lemma not_lt0_overflow: "0 \<le> r \<Longrightarrow> \<not> lt0 (overflow r)"
  by (simp add: overflow_def lt0_def)

lemma nonneg_or_inf_overflow: "0 \<le> r \<Longrightarrow> nonneg_or_inf (overflow r)"
  using max_float_def by (simp add: overflow_def nonneg_or_inf_def)

lemma not_lt0_cabs: "\<not> lt0 (cabs z)"
proof (cases z)
  case (Pair a b)
  show ?thesis
  proof (cases "\<exists>r s. a = Val r \<and> b = Val s")
    case True
    then obtain r s where "a = Val r" "b = Val s"
      by blast
    with Pair have "cabs z = overflow (sqrt (r\<^sup>2 + s\<^sup>2))"
      by (simp add: cabs_def)
    then show ?thesis
      by (simp add: not_lt0_overflow)
  next
    case False
    with Pair have "cabs z = PosInf \<or> cabs z = NaN"
      by (cases a; cases b) (simp_all add: cabs_def)
    then show ?thesis
      by (auto simp: lt0_def)
  qed
qed

lemma cabs_not_NegInf: "cabs z \<noteq> NegInf"
  using not_lt0_cabs [of z] by (auto simp: lt0_def)

lemma not_lt0_fmul_4:
  assumes "\<not> lt0 v"
  shows "\<not> lt0 (fmul (Val 4) v)"
proof (cases v)
  case (Val r)
  with assms have "0 \<le> 4 * r"
    by (simp add: lt0_def)
  then have "\<not> lt0 (overflow (4 * r))"
    by (rule not_lt0_overflow)
  with Val show ?thesis
    by simp
qed (use assms in \<open>simp_all add: lt0_def inf_times_def\<close>)

lemma nonneg_or_inf_fadd:
  assumes "nonneg_or_inf s" and "0 \<le> a"
  shows "nonneg_or_inf (fadd s (overflow a))"
proof (cases s)
  case (Val r)
  with assms have "0 \<le> r + a"
    by (simp add: nonneg_or_inf_def)
  then have "nonneg_or_inf (overflow (r + a))"
    by (rule nonneg_or_inf_overflow)
  with Val assms(2) show ?thesis
    by (simp add: overflow_def nonneg_or_inf_def)
next
  case PosInf
  with assms(2) show ?thesis
    by (simp add: overflow_def nonneg_or_inf_def)
qed (use assms(1) in \<open>simp_all add: nonneg_or_inf_def\<close>)



subsection \<open>Codec\<close>

lemma real_to_complex_halves:
  assumes "even (length v)"
  shows "real_to_complex v
         = Inr (map2 Complex (take (length v div 2) v) (drop (length v div 2) v))"
proof -
  let ?k = "length v div 2"
  have len: "length v = ?k + ?k" using assms by presburger
  have eq: "length (take ?k v) = length (drop ?k v)" using len by simp
  have "map2 (\<lambda>a b. complex_of_real a + b) (take ?k v)
          (map (\<lambda>b. \<i> * complex_of_real b) (drop ?k v))
        = map2 Complex (take ?k v) (drop ?k v)"
    by (simp add: zip_map2 Complex_eq case_prod_unfold)
  then show ?thesis
    using eq by (simp add: real_to_complex_def broadcast2_def slice_def)
qed

lemma complex_to_real_halves:
  "length a = length b \<Longrightarrow> complex_to_real (map2 Complex a b) = a @ b"
  by (induction a b rule: list_induct2) (simp_all add: complex_to_real_def)

lemma real_to_complex_of_complex_to_real: "real_to_complex (complex_to_real w) = Inr w"
proof -
  have "map2 Complex (map Re w) (map Im w) = w"
    by (induction w) simp_all
  then show ?thesis
    by (simp add: real_to_complex_halves complex_to_real_def)
qed

subsection \<open>Driver\<close>

lemma start_fresh_cell:
  assumes "j < length t" and "t ! j = Val 0"
  shows "start minimize j t = Inr (t[j := recorded (minimize j)])"
proof (cases "minimize j")
  case Raises
  moreover have "t[j := Val 0] = t"
    using assms(2) list_update_id [of t j] by simp
  ultimately show ?thesis
    using assms by (simp add: start_def idx_def store_def recorded_def lt0_def)
next
  case (Fun v)
  with assms show ?thesis
    by (simp add: start_def idx_def store_def recorded_def)
qed

lemma tangles_prefix:
  "k \<le> N \<Longrightarrow>
   for_loop [0..<k] (start minimize) (replicate N (Val 0))
   = Inr (map (\<lambda>j. recorded (minimize j)) [0..<k] @ replicate (N - k) (Val 0))"
proof (induction k)
  case 0
  show ?case by simp
next
  case (Suc k)
  let ?done = "map (\<lambda>j. recorded (minimize j)) [0..<k]"
  let ?t = "?done @ replicate (N - k) (Val 0)"
  from Suc.prems have rest: "N - k = Suc (N - Suc k)" by simp
  have "for_loop [0..<Suc k] (start minimize) (replicate N (Val 0))
        = bind_res (for_loop [0..<k] (start minimize) (replicate N (Val 0))) (start minimize k)"
    by (rule for_loop_Suc)
  also have "\<dots> = start minimize k ?t"
    using Suc by simp
  also have "\<dots> = Inr (?t[k := recorded (minimize k)])"
    using Suc.prems by (intro start_fresh_cell) (simp_all add: nth_append)
  also have "?t[k := recorded (minimize k)]
    = map (\<lambda>j. recorded (minimize j)) [0..<Suc k] @ replicate (N - Suc k) (Val 0)"
    by (simp add: list_update_append rest)
  finally show ?case .
qed

lemma tangles_after_eq:
  "tangles_after minimize N = Inr (map (\<lambda>j. recorded (minimize j)) [0..<N])"
  by (simp add: tangles_after_def tangles_prefix)

lemma three_tangle_eq:
  "three_tangle minimize N = np_min (map (\<lambda>j. recorded (minimize j)) [0..<N])"
  by (simp add: three_tangle_def tangles_after_eq)

lemma lt0_fmin: "lt0 (fmin a b) = (a \<noteq> NaN \<and> b \<noteq> NaN \<and> (lt0 a \<or> lt0 b))"
  by (cases a; cases b) (auto simp: lt0_def min_def)

lemma fmin_eq_NaN: "fmin a b = NaN \<longleftrightarrow> a = NaN \<or> b = NaN"
  by (cases a; cases b) simp_all

lemma not_lt0_fold_fmin:
  "\<not> lt0 v \<Longrightarrow> \<forall>a \<in> set vs. \<not> lt0 a \<Longrightarrow> \<not> lt0 (fold fmin vs v)"
  by (induction vs arbitrary: v) (simp_all add: lt0_fmin)

lemma fold_fmin_eq_NaN: "fold fmin vs v = NaN \<longleftrightarrow> v = NaN \<or> NaN \<in> set vs"
  by (induction vs arbitrary: v) (auto simp: fmin_eq_NaN)

lemma not_lt0_recorded: "\<not> lt0 (recorded r)"
  by (cases r) (simp_all add: recorded_def lt0_def)

lemma recorded_eq_NaN: "recorded r = NaN \<longleftrightarrow> r = Fun NaN"
  by (cases r) (auto simp: recorded_def lt0_def)

lemma NaN_recorded_iff:
  "NaN \<in> set (map (\<lambda>j. recorded (minimize j)) [0..<N]) \<longleftrightarrow> (\<exists>j<N. minimize j = Fun NaN)"
proof -
  have "NaN \<in> set (map (\<lambda>j. recorded (minimize j)) [0..<N])
        \<longleftrightarrow> (\<exists>j<N. recorded (minimize j) = NaN)"
    by (force simp: image_iff)
  then show ?thesis
    by (simp add: recorded_eq_NaN)
qed

lemma np_min_not_lt0:
  assumes "np_min a = Inr r" and "\<forall>v \<in> set a. \<not> lt0 v"
  shows "\<not> lt0 r"
proof (cases a)
  case Nil
  with assms show ?thesis by (simp add: np_min_def)
next
  case (Cons v vs)
  with assms have "r = fold fmin vs v" and "\<not> lt0 v" and "\<forall>a \<in> set vs. \<not> lt0 a"
    by (simp_all add: np_min_def)
  then show ?thesis
    by (simp add: not_lt0_fold_fmin)
qed

lemma np_min_eq_NaN: "np_min a = Inr r \<Longrightarrow> r = NaN \<longleftrightarrow> NaN \<in> set a"
  by (cases a) (auto simp: np_min_def fold_fmin_eq_NaN)

lemma np_min_returns: "a \<noteq> [] \<Longrightarrow> \<exists>r. np_min a = Inr r"
  by (cases a) (simp_all add: np_min_def)

lemma nonneg_or_inf_iff: "nonneg_or_inf v \<longleftrightarrow> \<not> lt0 v \<and> v \<noteq> NaN"
  by (cases v) (auto simp: nonneg_or_inf_def lt0_def)

lemma three_tangle_never_negative:
  assumes "three_tangle minimize N = Inr r"
  shows "\<not> lt0 r"
  using assms unfolding three_tangle_eq
  by (rule np_min_not_lt0) (simp add: not_lt0_recorded)

subsection \<open>Blocks of the parameter vector, tangle and objective\<close>

lemma block_bound:
  assumes "(i::nat) < Np"
  shows "Np + i * 2 * Nc + 2 * Nc \<le> Np + 2 * Nc * Np"
proof -
  from assms have "Suc i * (2 * Nc) \<le> Np * (2 * Nc)"
    by (intro mult_le_mono1) simp
  then show ?thesis
    by (simp add: algebra_simps)
qed

lemma length_block:
  assumes "length x = Np + 2 * Nc * Np" and "i < Np"
  shows "length (slice x (Np + i * 2 * Nc) (Np + i * 2 * Nc + 2 * Nc)) = 2 * Nc"
  using block_bound [OF assms(2), of Nc] assms(1)
  by (simp add: slice_def)

lemma real_to_complex_block:
  assumes "length v = 2 * n"
  shows "\<exists>c. real_to_complex v = Inr c \<and> length c = n"
proof -
  from assms have "even (length v)" by simp
  then show ?thesis
    using assms by (simp add: real_to_complex_halves)
qed

lemma tangle_formula_nonneg: "0 \<le> tangle_formula phi"
  by (simp add: tangle_formula_def)

lemma theoretical_tangle_never_negative: "theoretical_tangle phi = Inr t \<Longrightarrow> \<not> lt0 t"
  by (auto simp: theoretical_tangle_def Let_def not_lt0_fmul_4 not_lt0_cabs split: if_splits)

lemma theoretical_tangle_long: "theoretical_tangle phi = Inr t \<Longrightarrow> 8 \<le> length phi"
  by (auto simp: theoretical_tangle_def split: if_splits)

lemma theoretical_tangle_bounded_list:
  assumes "8 \<le> length phi"
    and "list_all (\<lambda>z. \<bar>Re z\<bar> \<le> tangle_bound \<and> \<bar>Im z\<bar> \<le> tangle_bound) phi"
  shows "theoretical_tangle phi = Inr (Val (tangle_formula phi))"
  using assms by (intro theoretical_tangle_bounded) (simp_all add: list_all_length)

lemma broadcast2_bounded:
  assumes "broadcast2 f xs ys = Inr c" and "\<forall>a \<in> set xs. \<forall>b \<in> set ys. P (f a b)"
  shows "list_all P c"
proof -
  have zipped: "P (f a b)" if "(a, b) \<in> set (zip xs ys)" for a b
    using that assms(2) by (meson set_zip_leftD set_zip_rightD)
  have one: "xs ! 0 \<in> set xs" if "length xs = 1"
    using that by simp
  have other: "ys ! 0 \<in> set ys" if "length ys = 1"
    using that by simp
  consider "length xs = length ys" "c = map2 f xs ys"
    | "length xs = 1" "c = map (f (xs ! 0)) ys"
    | "length ys = 1" "c = map (\<lambda>a. f a (ys ! 0)) xs"
    using assms(1) by (auto simp: broadcast2_def split: if_splits)
  then show ?thesis
  proof cases
    case 1
    then show ?thesis
      using zipped by (auto simp: list_all_iff)
  next
    case 2
    then show ?thesis
      using one assms(2) by (auto simp: list_all_iff)
  next
    case 3
    then show ?thesis
      using other assms(2) by (auto simp: list_all_iff)
  qed
qed

lemma real_to_complex_bounded:
  assumes "real_to_complex v = Inr c" and "list_all (\<lambda>a. \<bar>a\<bar> \<le> B) v"
  shows "list_all (\<lambda>z. \<bar>Re z\<bar> \<le> B \<and> \<bar>Im z\<bar> \<le> B) c"
  using assms(1) unfolding real_to_complex_def
proof (rule broadcast2_bounded)
  show "\<forall>a \<in> set (slice v 0 (length v div 2)).
          \<forall>b \<in> set (map (\<lambda>b. \<i> * complex_of_real b) (drop (length v div 2) v)).
            \<bar>Re (complex_of_real a + b)\<bar> \<le> B \<and> \<bar>Im (complex_of_real a + b)\<bar> \<le> B"
    using assms(2) by (auto simp: slice_def list_all_iff dest: in_set_takeD in_set_dropD)
qed

lemma slice_bounded:
  assumes "list_all P (drop n x)" and "n \<le> j"
  shows "list_all P (slice x j b)"
proof -
  have "set (slice x j b) \<subseteq> set (drop j x)"
    by (simp add: slice_def set_take_subset)
  also have "\<dots> \<subseteq> set (drop n x)"
    using assms(2) by (rule set_drop_subset_set_drop)
  finally show ?thesis
    using assms(1) by (auto simp: list_all_iff)
qed

lemma objective_step_nonneg:
  assumes "bind_res (real_to_complex v) (\<lambda>c.
           bind_res (idx p i) (\<lambda>w.
           bind_res (theoretical_tangle c) (\<lambda>tau.
           Inr (fadd result (fmul (Val w) tau))))) = Inr result'"
    and "list_all (\<lambda>w. 0 \<le> w) p" and "list_all (\<lambda>a. \<bar>a\<bar> \<le> tangle_bound) v"
    and "nonneg_or_inf result"
  shows "nonneg_or_inf result'"
proof -
  from assms(1) obtain c w tau where c: "real_to_complex v = Inr c"
    and w: "idx p i = Inr w" and tau: "theoretical_tangle c = Inr tau"
    and r: "result' = fadd result (fmul (Val w) tau)"
    by (auto simp: bind_res_def split: sum.splits)
  from w assms(2) have "0 \<le> w"
    by (auto simp: idx_def list_all_length split: if_splits)
  moreover have "tau = Val (tangle_formula c)"
    using tau theoretical_tangle_bounded_list [OF theoretical_tangle_long [OF tau]
        real_to_complex_bounded [OF c assms(3)]]
    by simp
  ultimately show ?thesis
    using assms(4) by (simp add: r nonneg_or_inf_fadd tangle_formula_nonneg)
qed

subsection \<open>Reconstruction constraint\<close>

lemma cons3_sum_eq:
  assumes "Np \<le> length p" and "Np \<le> length c"
    and "\<forall>k<Np. i < length (c ! k) \<and> j < length (c ! k)"
  shows "cons3_sum Np p c i j
         = Inr (\<Sum>k<Np. complex_of_real (p ! k) * c ! k ! i * cnj (c ! k ! j))"
  using assms unfolding cons3_sum_def
proof (induction Np)
  case 0
  show ?case by simp
next
  case (Suc n)
  then show ?case
    by (simp add: for_loop_Suc idx_def idx2_def del: upt_Suc)
qed

lemma grid_index_bound:
  assumes "(i::nat) < Nc" and "j < Nc"
  shows "i * Nc + j < Nc\<^sup>2"
proof -
  from assms(2) have "i * Nc + j < Suc i * Nc" by simp
  also from assms(1) have "Suc i * Nc \<le> Nc * Nc"
    by (intro mult_le_mono1) simp
  finally show ?thesis by (simp add: power2_eq_square)
qed

lemma cons3_entry_eq:
  assumes "Np \<le> length p" and "Np \<le> length c"
    and "\<forall>k<Np. i < length (c ! k) \<and> j < length (c ! k)"
    and "i < length rho" and "j < length (rho ! i)"
    and "i * Nc + j < length (fst st)" and "i * Nc + j < length (snd st)"
  shows "cons3_entry Nc Np rho p c i j st
         = Inr ((fst st)[i * Nc + j :=
                  Re ((\<Sum>k<Np. complex_of_real (p ! k) * c ! k ! i * cnj (c ! k ! j)) - rho ! i ! j)],
                (snd st)[i * Nc + j :=
                  Im ((\<Sum>k<Np. complex_of_real (p ! k) * c ! k ! i * cnj (c ! k ! j)) - rho ! i ! j)])"
  using assms(4-7)
  by (simp add: cons3_entry_def cons3_sum_eq [OF assms(1-3)] idx2_def idx_def store_def Let_def)

lemma cons3_grid:
  assumes "P st0"
    and "\<And>i j st. i < Nc \<Longrightarrow> j < Nc \<Longrightarrow> P st \<Longrightarrow> \<exists>st'. entry i j st = Inr st' \<and> P st'"
  shows "\<exists>st'. for_loop [0..<Nc] (\<lambda>i. for_loop [0..<Nc] (entry i)) st0 = Inr st' \<and> P st'"
proof (rule for_loop_total [where P = P])
  show "P st0" by (rule assms(1))
next
  fix i st
  assume "i \<in> set [0..<Nc]" and st: "P st"
  then have i: "i < Nc" by simp
  show "\<exists>st'. for_loop [0..<Nc] (entry i) st = Inr st' \<and> P st'"
  proof (rule for_loop_total [where P = P])
    show "P st" by (rule st)
  next
    fix j st1
    assume "j \<in> set [0..<Nc]" and "P st1"
    then show "\<exists>st'. entry i j st1 = Inr st' \<and> P st'"
      using assms(2) [of i j st1] i by simp
  qed
qed

lemma cons3_rows_prefix:
  assumes "\<forall>i<k. real_to_complex (slice x (Np + i * 2 * Nc) (Np + i * 2 * Nc + 2 * Nc)) = Inr (f i)
                \<and> length (f i) = Nc"
    and "k \<le> Nc"
  shows "for_loop [0..<k]
           (\<lambda>i c. let j = Np + i * 2 * Nc in
                  bind_res (real_to_complex (slice x j (j + 2 * Nc))) (\<lambda>v. set_row c i v))
           (replicate Nc (replicate Nc 0))
         = Inr (map f [0..<k] @ replicate (Nc - k) (replicate Nc 0))"
  using assms
proof (induction k)
  case 0
  show ?case by simp
next
  case (Suc k)
  let ?body = "\<lambda>i c. let j = Np + i * 2 * Nc in
                  bind_res (real_to_complex (slice x j (j + 2 * Nc))) (\<lambda>v. set_row c i v)"
  let ?c = "map f [0..<k] @ replicate (Nc - k) (replicate Nc 0)"
  from Suc.prems have rest: "Nc - k = Suc (Nc - Suc k)" by simp
  have "for_loop [0..<Suc k] ?body (replicate Nc (replicate Nc 0))
        = bind_res (for_loop [0..<k] ?body (replicate Nc (replicate Nc 0))) (?body k)"
    by (rule for_loop_Suc)
  also have "\<dots> = ?body k ?c"
    using Suc by simp
  also have "\<dots> = set_row ?c k (f k)"
    using Suc.prems by (simp add: Let_def)
  also have "\<dots> = Inr (?c[k := f k])"
    using Suc.prems by (simp add: set_row_def nth_append)
  also have "?c[k := f k] = map f [0..<Suc k] @ replicate (Nc - Suc k) (replicate Nc 0)"
    by (simp add: list_update_append rest)
  finally show ?case .
qed

lemma decoded_blocks:
  assumes "length x = Np + 2 * Nc * Np"
  shows "\<exists>f. \<forall>i<Np. real_to_complex (slice x (Np + i * 2 * Nc) (Np + i * 2 * Nc + 2 * Nc)) = Inr (f i)
                \<and> length (f i) = Nc"
proof -
  have "\<forall>i. \<exists>v. i < Np \<longrightarrow>
          real_to_complex (slice x (Np + i * 2 * Nc) (Np + i * 2 * Nc + 2 * Nc)) = Inr v \<and> length v = Nc"
    using real_to_complex_block [OF length_block [OF assms]] by blast
  then show ?thesis
    by metis
qed

lemma cons3_rows_in_bounds:
  assumes "length x = Np + 2 * Nc * Np" and "Np \<le> Nc"
  shows "\<exists>c. cons3_rows Nc Np x = Inr c \<and> length c = Nc \<and> (\<forall>k<Nc. length (c ! k) = Nc)"
proof -
  from decoded_blocks [OF assms(1)] obtain f where
    f: "\<forall>i<Np. real_to_complex (slice x (Np + i * 2 * Nc) (Np + i * 2 * Nc + 2 * Nc)) = Inr (f i)
                \<and> length (f i) = Nc"
    by blast
  let ?c = "map f [0..<Np] @ replicate (Nc - Np) (replicate Nc 0)"
  have "cons3_rows Nc Np x = Inr ?c"
    unfolding cons3_rows_def using f assms(2) by (rule cons3_rows_prefix)
  moreover have "length ?c = Nc"
    using assms(2) by simp
  moreover have "\<forall>k<Nc. length (?c ! k) = Nc"
    using f by (simp add: nth_append)
  ultimately show ?thesis by blast
qed

lemma cons3_rows_out_of_range:
  assumes "length x = Np + 2 * Nc * Np" and "Nc < Np"
  shows "cons3_rows Nc Np x = Inl IndexError"
proof -
  let ?body = "\<lambda>i c. let j = Np + i * 2 * Nc in
                  bind_res (real_to_complex (slice x j (j + 2 * Nc))) (\<lambda>v. set_row c i v)"
  from decoded_blocks [OF assms(1)] obtain f where
    f: "\<forall>i<Np. real_to_complex (slice x (Np + i * 2 * Nc) (Np + i * 2 * Nc + 2 * Nc)) = Inr (f i)
                \<and> length (f i) = Nc"
    by blast
  let ?c = "map f [0..<Nc] @ replicate (Nc - Nc) (replicate Nc 0)"
  have first: "for_loop [0..<Nc] ?body (replicate Nc (replicate Nc 0)) = Inr ?c"
    using f assms(2) by (intro cons3_rows_prefix) simp_all
  have "?body Nc ?c = set_row ?c Nc (f Nc)"
    using f assms(2) by (simp add: Let_def)
  also have "\<dots> = Inl IndexError"
    by (simp add: set_row_def)
  finally have fail: "?body Nc ?c = Inl IndexError" .
  have "[0..<Np] = [0..<Nc] @ [Nc..<Np]"
    using assms(2) upt_add_eq_append [of 0 Nc "Np - Nc"] by simp
  also have "[Nc..<Np] = Nc # [Suc Nc..<Np]"
    using assms(2) by (simp add: upt_conv_Cons)
  finally have "[0..<Np] = [0..<Nc] @ Nc # [Suc Nc..<Np]" .
  then have "cons3_rows Nc Np x
    = bind_res (for_loop [0..<Nc] ?body (replicate Nc (replicate Nc 0)))
        (for_loop (Nc # [Suc Nc..<Np]) ?body)"
    by (simp only: cons3_rows_def for_loop_append)
  also have "\<dots> = Inl IndexError"
    by (simp only: first bind_res_simps for_loop.simps fail)
  finally show ?thesis .
qed


lemma take_drop_concat_uniform:
  assumes "\<forall>b \<in> set bs. length b = m" and "i < length bs"
  shows "take m (drop (i * m) (concat bs)) = bs ! i"
  using assms
proof (induction bs arbitrary: i)
  case Nil
  then show ?case by simp
next
  case (Cons b bs)
  show ?case
  proof (cases i)
    case 0
    with Cons.prems show ?thesis by simp
  next
    case (Suc n)
    with Cons.prems have "take m (drop (n * m) (concat bs)) = bs ! n"
      by (intro Cons.IH) simp_all
    with Suc Cons.prems show ?thesis by simp
  qed
qed

lemma slice_encode:
  assumes "length p = Np" and "list_all (\<lambda>c. length c = Nc) cs" and "i < length cs"
  shows "slice (encode p cs) (Np + i * 2 * Nc) (Np + i * 2 * Nc + 2 * Nc) = complex_to_real (cs ! i)"
proof -
  have blocks: "\<forall>b \<in> set (map complex_to_real cs). length b = 2 * Nc"
    using assms(2) by (auto simp: complex_to_real_def list_all_iff)
  have "slice (encode p cs) (Np + i * 2 * Nc) (Np + i * 2 * Nc + 2 * Nc)
        = take (2 * Nc) (drop (i * (2 * Nc)) (concat (map complex_to_real cs)))"
    using assms(1) by (simp add: slice_def encode_def mult.assoc)
  also have "\<dots> = map complex_to_real cs ! i"
    using blocks assms(3) by (intro take_drop_concat_uniform) simp_all
  finally show ?thesis
    using assms(3) by simp
qed

section \<open>Properties\<close>

lemma ghz_amplitude_sq: "(complex_of_real (1 / sqrt 2))\<^sup>2 = 1 / 2"
proof -
  have "(complex_of_real (1 / sqrt 2))\<^sup>2 = complex_of_real ((1 / sqrt 2)\<^sup>2)"
    by (simp only: of_real_power)
  also have "(1 / sqrt 2)\<^sup>2 = (1 / 2 :: real)"
    by (simp add: power_divide)
  finally show ?thesis by simp
qed

lemma ghz_bounded:
  "list_all (\<lambda>z. \<bar>Re z\<bar> \<le> tangle_bound \<and> \<bar>Im z\<bar> \<le> tangle_bound) ghz"
proof -
  have "1 / sqrt 2 \<le> 1"
    by simp
  also have "1 \<le> tangle_bound"
    by (simp add: tangle_bound_def)
  finally have "\<bar>1 / sqrt 2\<bar> \<le> tangle_bound"
    by simp
  moreover have "0 \<le> tangle_bound"
    by (simp add: tangle_bound_def)
  ultimately show ?thesis
    by (simp add: ghz_def)
qed

lemma ghz_tangle_formula: "tangle_formula ghz = 1"
proof -
  define a where "a = complex_of_real (1 / sqrt 2)"
  have sq: "a\<^sup>2 = 1 / 2"
    unfolding a_def by (rule ghz_amplitude_sq)
  have "tangle_formula [a, 0, 0, 0, 0, 0, 0, a] = 4 * cmod (a\<^sup>2 * a\<^sup>2)"
    by (simp add: tangle_formula_def)
  also have "\<dots> = 1"
    by (simp add: sq norm_mult norm_divide)
  finally show ?thesis
    by (simp add: ghz_def a_def)
qed

lemma ghz_tangle_exact: "theoretical_tangle ghz = Inr (Val 1)"
proof -
  have "8 \<le> length ghz"
    by (simp add: ghz_def)
  then have "theoretical_tangle ghz = Inr (Val (tangle_formula ghz))"
    using ghz_bounded by (rule theoretical_tangle_bounded_list)
  then show ?thesis
    by (simp add: ghz_tangle_formula)
qed

lemma overflow_1: "overflow 1 = Val 1"
proof -
  have "\<bar>1::real\<bar> \<le> max_float"
    by (rule below_cap) simp
  then show ?thesis
    by (rule overflow_id)
qed

lemma objective_ghz: "objective (encode [1] [ghz]) 8 1 = Inr (Val 1)"
proof -
  have l: "length (complex_to_real ghz) = 16"
    by (simp add: complex_to_real_def ghz_def)
  have x: "take 16 (complex_to_real ghz) = complex_to_real ghz"
    using l by simp
  show ?thesis
    by (simp add: objective_def x real_to_complex_of_complex_to_real ghz_tangle_exact
        idx_def slice_def encode_def overflow_1)
qed

text \<open>
  Claim C6. The analytic tangle evaluator applied to the GHZ state (amplitude
  \<open>1 / sqrt 2\<close> at positions 0 and 7, zero elsewhere) returns a finite value within
  \<open>1e-6\<close> of 1; without rounding the value is 1 itself.
\<close>

theorem theoretical_tangle_ghz:
  "\<exists>tau. theoretical_tangle ghz = Inr (Val tau) \<and> \<bar>tau - 1\<bar> \<le> 1 / 10 ^ 6"
  by (simp add: ghz_tangle_exact)

text \<open>
  Claim C4. The vector codec is a round-trip pair: for every real vector \<open>v\<close> of even
  length, \<open>real_to_complex v\<close> returns a complex vector that \<open>complex_to_real\<close> maps
  back to \<open>v\<close>; and for every complex vector \<open>w\<close>, \<open>real_to_complex\<close> of
  \<open>complex_to_real w\<close> returns \<open>w\<close>.
\<close>

theorem codec_round_trip:
  "(even (length v) \<longrightarrow> (\<exists>w. real_to_complex v = Inr w \<and> complex_to_real w = v))
   \<and> real_to_complex (complex_to_real w) = Inr w"
proof (intro conjI impI)
  assume ev: "even (length v)"
  let ?k = "length v div 2"
  have "length v = ?k + ?k" using ev by presburger
  then have "length (take ?k v) = length (drop ?k v)" by simp
  then have "complex_to_real (map2 Complex (take ?k v) (drop ?k v)) = v"
    by (simp add: complex_to_real_halves)
  then show "\<exists>w. real_to_complex v = Inr w \<and> complex_to_real w = v"
    using real_to_complex_halves [OF ev] by simp
next
  show "real_to_complex (complex_to_real w) = Inr w"
    by (rule real_to_complex_of_complex_to_real)
qed

theorem codec_round_trip_witness:
  "even (length [1, 2, 3, 4 :: real])
   \<and> (\<exists>w. real_to_complex [1, 2, 3, 4] = Inr w \<and> complex_to_real w = [1, 2, 3, 4])
   \<and> real_to_complex (complex_to_real [Complex 1 3, Complex 2 4])
       = Inr [Complex 1 3, Complex 2 4]"
  using codec_round_trip [of "[1, 2, 3, 4]" "[Complex 1 3, Complex 2 4]"] by simp

text \<open>
  Claim C8, as stated: \<open>real_to_complex\<close> fails on every real vector of odd length.
  It does not on length 3: the halves have lengths 1 and 2, and numpy broadcasts the
  first against the second.
\<close>

theorem real_to_complex_length3_counterexample:
  "real_to_complex [1, 2, 3] = Inr [Complex 1 2, Complex 1 3]"
  by (simp add: real_to_complex_def broadcast2_def slice_def Complex_eq)

text \<open>
  Claim C8, amended. On a real vector of odd length at least 5, \<open>real_to_complex\<close>
  fails (ValueError, the halves cannot be broadcast together). On odd lengths 3 and 1
  it returns a complex vector: \<open>[z0 + i z1, z0 + i z2]\<close> for length 3, the empty
  vector for length 1.
\<close>

theorem real_to_complex_odd:
  assumes "odd (length z)"
  shows "(5 \<le> length z \<longrightarrow> real_to_complex z = Inl ValueError)
       \<and> (length z = 3 \<longrightarrow>
            real_to_complex z = Inr [Complex (z ! 0) (z ! 1), Complex (z ! 0) (z ! 2)])
       \<and> (length z = 1 \<longrightarrow> real_to_complex z = Inr [])"
proof (intro conjI impI)
  assume "5 \<le> length z"
  with assms have "length z div 2 \<noteq> length z - length z div 2"
    and "length z div 2 \<noteq> 1" and "length z div 2 \<le> length z"
    and "length z - length z div 2 \<noteq> 1"
    by presburger+
  then show "real_to_complex z = Inl ValueError"
    by (simp add: real_to_complex_def broadcast2_def slice_def)
next
  assume "length z = 3"
  then obtain a b c where "z = [a, b, c]"
    by (auto simp: length_Suc_conv numeral_3_eq_3)
  then show "real_to_complex z = Inr [Complex (z ! 0) (z ! 1), Complex (z ! 0) (z ! 2)]"
    by (simp add: real_to_complex_def broadcast2_def slice_def Complex_eq)
next
  assume "length z = 1"
  then obtain a where "z = [a]"
    by (auto simp: length_Suc_conv)
  then show "real_to_complex z = Inr []"
    by (simp add: real_to_complex_def broadcast2_def slice_def)
qed

theorem real_to_complex_odd_witness:
  "odd (length [1, 2, 3, 4, 5 :: real]) \<and> real_to_complex [1, 2, 3, 4, 5] = Inl ValueError"
  using real_to_complex_odd [of "[1, 2, 3, 4, 5]"] by simp

text \<open>
  Claim C1 says that a start on which the solver raises records infinity. The code
  leaves the cell at its initial value: with three starts of which start 1 raises and
  the others report 3, the array after the loop is \<open>[3, 0, 3]\<close> and the result is 0.
  The exception is swallowed and the loop goes on to start 2.
\<close>

theorem failed_start_records_zero:
  "tangles_after raises_at_1 3 = Inr [Val 3, Val 0, Val 3]
   \<and> three_tangle raises_at_1 3 = Inr (Val 0)"
  by code_simp

text \<open>
  Claim C2 says that \<open>three_tangle\<close> returns infinity when every start fails or is
  discarded. With the default of ten starts and a solver that raises on each of them
  the code returns 0.
\<close>

theorem all_starts_raise_returns_zero:
  "three_tangle always_raises 10 = Inr (Val 0)"
  by code_simp

text \<open>
  Claim C3, as stated: the value returned is a non-negative real number or infinity.
  When the solver reports NaN the comparison with 0 is false, the cell keeps NaN and
  the minimum is NaN.
\<close>

theorem three_tangle_nan_counterexample:
  "three_tangle always_nan 1 = Inr NaN \<and> \<not> nonneg_or_inf NaN"
  by code_simp

text \<open>
  Claim C3, amended. For every solver behaviour and every \<open>N\<close>, a value returned by
  \<open>three_tangle\<close> is never negative; it is NaN exactly when the solver reported NaN
  on one of the starts, and a non-negative real number or infinity when it reported NaN
  on none. With at least one start the function does return.
\<close>

theorem three_tangle_range:
  "(0 < N \<longrightarrow> (\<exists>r. three_tangle minimize N = Inr r))
   \<and> (three_tangle minimize N = Inr r \<longrightarrow>
        \<not> lt0 r
        \<and> (r = NaN \<longleftrightarrow> (\<exists>j<N. minimize j = Fun NaN))
        \<and> ((\<forall>j<N. minimize j \<noteq> Fun NaN) \<longrightarrow> nonneg_or_inf r))"
proof (intro conjI impI)
  assume "0 < N"
  then show "\<exists>r. three_tangle minimize N = Inr r"
    by (simp add: three_tangle_eq np_min_returns)
next
  assume r: "three_tangle minimize N = Inr r"
  then show neg: "\<not> lt0 r"
    by (rule three_tangle_never_negative)
  from r have m: "np_min (map (\<lambda>j. recorded (minimize j)) [0..<N]) = Inr r"
    by (simp add: three_tangle_eq)
  show nan: "r = NaN \<longleftrightarrow> (\<exists>j<N. minimize j = Fun NaN)"
    using np_min_eq_NaN [OF m] by (simp only: NaN_recorded_iff)
  assume "\<forall>j<N. minimize j \<noteq> Fun NaN"
  with neg nan show "nonneg_or_inf r"
    by (simp add: nonneg_or_inf_iff)
qed

theorem three_tangle_range_witness:
  "(\<exists>r. three_tangle negative_at_0 2 = Inr r)
   \<and> three_tangle negative_at_0 2 = Inr (Val 2)
   \<and> \<not> lt0 (Val 2) \<and> nonneg_or_inf (Val 2)"
proof -
  have r: "three_tangle negative_at_0 2 = Inr (Val 2)"
    by code_simp
  show ?thesis
    using three_tangle_range [of 2 negative_at_0 "Val 2"] r
    by (simp add: negative_at_0_def)
qed

text \<open>
  Claim C7. For every start on which the solver reports a negative value, the cell of
  that start holds infinity after the loop, and the value \<open>three_tangle\<close> returns is not
  negative.
\<close>

theorem negative_start_discarded:
  assumes "j < N" and "minimize j = Fun v" and "lt0 v"
  shows "(\<exists>t. tangles_after minimize N = Inr t \<and> length t = N \<and> t ! j = PosInf)
       \<and> (\<exists>r. three_tangle minimize N = Inr r \<and> \<not> lt0 r)"
proof
  show "\<exists>t. tangles_after minimize N = Inr t \<and> length t = N \<and> t ! j = PosInf"
    using assms by (simp add: tangles_after_eq recorded_def)
next
  from assms(1) obtain r where r: "three_tangle minimize N = Inr r"
    using np_min_returns [of "map (\<lambda>j. recorded (minimize j)) [0..<N]"]
    by (auto simp: three_tangle_eq)
  then have "\<not> lt0 r"
    by (rule three_tangle_never_negative)
  with r show "\<exists>r. three_tangle minimize N = Inr r \<and> \<not> lt0 r"
    by blast
qed

theorem negative_start_discarded_witness:
  "negative_at_0 0 = Fun (Val (- 1)) \<and> lt0 (Val (- 1))
   \<and> (\<exists>t. tangles_after negative_at_0 2 = Inr t \<and> length t = 2 \<and> t ! 0 = PosInf)
   \<and> (\<exists>r. three_tangle negative_at_0 2 = Inr r \<and> \<not> lt0 r)"
  using negative_start_discarded [of 0 2 negative_at_0 "Val (- 1)"]
  by (simp add: negative_at_0_def lt0_def)

text \<open>
  Claim C10, as stated: the analytic tangle evaluator returns a non-negative real number
  on every 8-component complex input. On eight amplitudes equal to \<open>1e200\<close> the squares
  overflow to infinity, \<open>d1 - 2 * d2\<close> is \<open>inf - inf\<close>, and the result is NaN.
\<close>

theorem theoretical_tangle_overflow_counterexample:
  "theoretical_tangle (replicate 8 (10 ^ 200)) = Inr NaN \<and> \<not> nonneg_or_inf NaN"
proof -
  have "max_float < (10 ^ 200 :: real) * 10 ^ 200"
    using max_float_below by simp
  then have "theoretical_tangle (replicate 8 (complex_of_real (10 ^ 200))) = Inr NaN"
    by (intro tangle_overflow) simp_all
  then show ?thesis
    by (simp add: nonneg_or_inf_def)
qed

text \<open>
  Claim C10, amended. On every 8-component complex input whose real and imaginary parts
  are at most \<open>1e75\<close> in magnitude the analytic tangle evaluator returns a non-negative
  real number; on any input its result is never negative, being 4 times an absolute
  value. Consequently, when the weight entries \<open>x[:Np]\<close> of the parameter vector are
  non-negative and the other entries are at most \<open>1e75\<close> in magnitude, every value the
  objective returns is non-negative (a non-negative real number, or infinity when the
  weighted sum overflows); and on a parameter vector of the proper length, with \<open>Nc\<close>
  at least 8, the objective does return.
\<close>

theorem tangle_and_objective_nonneg:
  "(length phi = 8
      \<and> list_all (\<lambda>z. \<bar>Re z\<bar> \<le> tangle_bound \<and> \<bar>Im z\<bar> \<le> tangle_bound) phi \<longrightarrow>
        (\<exists>tau. theoretical_tangle phi = Inr (Val tau) \<and> 0 \<le> tau))
   \<and> (theoretical_tangle phi = Inr t \<longrightarrow> \<not> lt0 t)
   \<and> (list_all (\<lambda>w. 0 \<le> w) (take Np x) \<and> list_all (\<lambda>v. \<bar>v\<bar> \<le> tangle_bound) (drop Np x)
        \<and> objective x Nc Np = Inr r \<longrightarrow> nonneg_or_inf r)
   \<and> (list_all (\<lambda>w. 0 \<le> w) (take Np x) \<and> list_all (\<lambda>v. \<bar>v\<bar> \<le> tangle_bound) (drop Np x)
        \<and> length x = Np + 2 * Nc * Np \<and> 8 \<le> Nc \<longrightarrow>
        (\<exists>r. objective x Nc Np = Inr r \<and> nonneg_or_inf r))"
proof (intro conjI impI)
  assume "length phi = 8
    \<and> list_all (\<lambda>z. \<bar>Re z\<bar> \<le> tangle_bound \<and> \<bar>Im z\<bar> \<le> tangle_bound) phi"
  then have "theoretical_tangle phi = Inr (Val (tangle_formula phi))"
    by (intro theoretical_tangle_bounded_list) simp_all
  then show "\<exists>tau. theoretical_tangle phi = Inr (Val tau) \<and> 0 \<le> tau"
    by (simp add: tangle_formula_nonneg)
next
  assume "theoretical_tangle phi = Inr t"
  then show "\<not> lt0 t"
    by (rule theoretical_tangle_never_negative)
next
  let ?blk = "\<lambda>i. slice x (Np + i * 2 * Nc) (Np + i * 2 * Nc + 2 * Nc)"
  let ?body = "\<lambda>i result.
           bind_res (real_to_complex (?blk i)) (\<lambda>c.
           bind_res (idx (take Np x) i) (\<lambda>w.
           bind_res (theoretical_tangle c) (\<lambda>tau.
           Inr (fadd result (fmul (Val w) tau)))))"
  assume a: "list_all (\<lambda>w. 0 \<le> w) (take Np x)
    \<and> list_all (\<lambda>v. \<bar>v\<bar> \<le> tangle_bound) (drop Np x) \<and> objective x Nc Np = Inr r"
  then have run: "for_loop [0..<Np] ?body (Val 0) = Inr r"
    by (simp add: objective_def slice_def Let_def)
  show "nonneg_or_inf r"
    using run
  proof (rule for_loop_invariant [where P = nonneg_or_inf])
    show "nonneg_or_inf (Val 0)"
      by (simp add: nonneg_or_inf_def)
  next
    fix i s s'
    assume "nonneg_or_inf s" and "?body i s = Inr s'"
    moreover have "list_all (\<lambda>v. \<bar>v\<bar> \<le> tangle_bound) (?blk i)"
      using a by (intro slice_bounded [where n = Np]) simp_all
    ultimately show "nonneg_or_inf s'"
      using a objective_step_nonneg by blast
  qed
next
  let ?blk = "\<lambda>i. slice x (Np + i * 2 * Nc) (Np + i * 2 * Nc + 2 * Nc)"
  let ?body = "\<lambda>i result.
           bind_res (real_to_complex (?blk i)) (\<lambda>c.
           bind_res (idx (take Np x) i) (\<lambda>w.
           bind_res (theoretical_tangle c) (\<lambda>tau.
           Inr (fadd result (fmul (Val w) tau)))))"
  assume a: "list_all (\<lambda>w. 0 \<le> w) (take Np x)
    \<and> list_all (\<lambda>v. \<bar>v\<bar> \<le> tangle_bound) (drop Np x)
    \<and> length x = Np + 2 * Nc * Np \<and> 8 \<le> Nc"
  have "\<exists>r. for_loop [0..<Np] ?body (Val 0) = Inr r \<and> nonneg_or_inf r"
  proof (rule for_loop_total [where P = nonneg_or_inf])
    show "nonneg_or_inf (Val 0)"
      by (simp add: nonneg_or_inf_def)
  next
    fix i and s :: fl
    assume i: "i \<in> set [0..<Np]" and s: "nonneg_or_inf s"
    then have "i < Np" by simp
    with a have "length (?blk i) = 2 * Nc"
      by (simp add: length_block)
    then obtain c where c: "real_to_complex (?blk i) = Inr c" "length c = Nc"
      using real_to_complex_block by blast
    have blk: "list_all (\<lambda>v. \<bar>v\<bar> \<le> tangle_bound) (?blk i)"
      using a by (intro slice_bounded [where n = Np]) simp_all
    have tau: "theoretical_tangle c = Inr (Val (tangle_formula c))"
      using a c(2) real_to_complex_bounded [OF c(1) blk]
      by (intro theoretical_tangle_bounded_list) simp_all
    from a \<open>i < Np\<close> have w: "idx (take Np x) i = Inr (x ! i)"
      by (simp add: idx_def)
    have run: "?body i s = Inr (fadd s (fmul (Val (x ! i)) (Val (tangle_formula c))))"
      by (simp add: c tau w)
    moreover have "nonneg_or_inf (fadd s (fmul (Val (x ! i)) (Val (tangle_formula c))))"
      using objective_step_nonneg [OF run _ blk s] a by simp
    ultimately show "\<exists>s'. ?body i s = Inr s' \<and> nonneg_or_inf s'"
      by blast
  qed
  then show "\<exists>r. objective x Nc Np = Inr r \<and> nonneg_or_inf r"
    by (simp add: objective_def slice_def Let_def)
qed

theorem tangle_and_objective_nonneg_witness:
  "length ghz = 8
   \<and> list_all (\<lambda>z. \<bar>Re z\<bar> \<le> tangle_bound \<and> \<bar>Im z\<bar> \<le> tangle_bound) ghz
   \<and> (\<exists>tau. theoretical_tangle ghz = Inr (Val tau) \<and> 0 \<le> tau)
   \<and> theoretical_tangle ghz = Inr (Val 1) \<and> \<not> lt0 (Val 1)
   \<and> list_all (\<lambda>w. 0 \<le> w) (take 1 (encode [1] [ghz]))
   \<and> list_all (\<lambda>v. \<bar>v\<bar> \<le> tangle_bound) (drop 1 (encode [1] [ghz]))
   \<and> objective (encode [1] [ghz]) 8 1 = Inr (Val 1)
   \<and> length (encode [1] [ghz]) = 1 + 2 * 8 * 1
   \<and> (\<exists>r. objective (encode [1] [ghz]) 8 1 = Inr r \<and> nonneg_or_inf r)"
proof -
  have b: "list_all (\<lambda>v. \<bar>v\<bar> \<le> tangle_bound) (drop 1 (encode [1] [ghz]))"
    using ghz_bounded by (simp add: encode_def complex_to_real_def ghz_def)
  have l: "length ghz = 8" "length (encode [1] [ghz]) = 1 + 2 * 8 * 1"
    by (simp_all add: ghz_def encode_def complex_to_real_def)
  have w: "list_all (\<lambda>w. 0 \<le> w) (take 1 (encode [1] [ghz]))"
    by (simp add: encode_def)
  show ?thesis
    using tangle_and_objective_nonneg [of ghz "Val 1" 1 "encode [1] [ghz]" 8 "Val 1"]
      ghz_bounded ghz_tangle_exact objective_ghz b l w
    by (simp add: lt0_def)
qed

text \<open>
  Claim C9. On a parameter vector of length \<open>Np + 2 * Nc * Np\<close> and an \<open>Nc\<close> by
  \<open>Nc\<close> target matrix, \<open>cons3\<close> returns (no read or write is out of range) if and
  only if \<open>Np \<le> Nc\<close>; it then returns a vector of length \<open>2 * Nc\<^sup>2\<close>. For
  \<open>Np > Nc\<close> it fails with IndexError, on the write of row \<open>Nc\<close> of the buffer.
\<close>

theorem cons3_in_bounds_iff:
  assumes "length x = Np + 2 * Nc * Np"
    and "length rho = Nc" and "list_all (\<lambda>row. length row = Nc) rho"
  shows "((\<exists>r. cons3 Nc Np rho x = Inr r) \<longleftrightarrow> Np \<le> Nc)
       \<and> (Np \<le> Nc \<longrightarrow> (\<exists>r. cons3 Nc Np rho x = Inr r \<and> length r = 2 * Nc\<^sup>2))
       \<and> (Nc < Np \<longrightarrow> cons3 Nc Np rho x = Inl IndexError)"
proof -
  have fails: "cons3 Nc Np rho x = Inl IndexError" if "Nc < Np"
    using cons3_rows_out_of_range [OF assms(1) that] by (simp add: cons3_def)
  have returns: "\<exists>r. cons3 Nc Np rho x = Inr r \<and> length r = 2 * Nc\<^sup>2" if le: "Np \<le> Nc"
  proof -
    let ?p = "slice x 0 Np"
    let ?P = "\<lambda>st :: real list \<times> real list. length (fst st) = Nc\<^sup>2 \<and> length (snd st) = Nc\<^sup>2"
    from cons3_rows_in_bounds [OF assms(1) le] obtain c where
      c: "cons3_rows Nc Np x = Inr c" "length c = Nc" "\<forall>k<Nc. length (c ! k) = Nc"
      by blast
    have p: "Np \<le> length ?p"
      using assms(1) by (simp add: slice_def)
    have "\<exists>st'. for_loop [0..<Nc] (\<lambda>i. for_loop [0..<Nc] (cons3_entry Nc Np rho ?p c i))
                  (replicate (Nc\<^sup>2) 0, replicate (Nc\<^sup>2) 0) = Inr st' \<and> ?P st'"
    proof (rule cons3_grid [where P = ?P])
      show "?P (replicate (Nc\<^sup>2) 0, replicate (Nc\<^sup>2) 0)" by simp
    next
      fix i j and st :: "real list \<times> real list"
      assume i: "i < Nc" and j: "j < Nc" and st: "?P st"
      have rows: "\<forall>k<Np. i < length (c ! k) \<and> j < length (c ! k)"
        using c(3) le i j by simp
      have rho: "i < length rho" "j < length (rho ! i)"
        using assms(2,3) i j by (simp_all add: list_all_length)
      have cell: "i * Nc + j < length (fst st)" "i * Nc + j < length (snd st)"
        using grid_index_bound [OF i j] st by simp_all
      show "\<exists>st'. cons3_entry Nc Np rho ?p c i j st = Inr st' \<and> ?P st'"
        using st le c(2)
        by (simp add: cons3_entry_eq [OF p _ rows rho cell])
    qed
    then obtain st' where "for_loop [0..<Nc]
        (\<lambda>i. for_loop [0..<Nc] (cons3_entry Nc Np rho ?p c i))
        (replicate (Nc\<^sup>2) 0, replicate (Nc\<^sup>2) 0) = Inr st'" and "?P st'"
      by blast
    then show ?thesis
      by (simp add: cons3_def c(1))
  qed
  show ?thesis
  proof (intro conjI impI)
    show "(\<exists>r. cons3 Nc Np rho x = Inr r) \<longleftrightarrow> Np \<le> Nc"
    proof (cases "Np \<le> Nc")
      case True
      with returns show ?thesis by blast
    next
      case False
      with fails show ?thesis by simp
    qed
  qed (use fails returns in blast)+
qed

theorem cons3_in_bounds_iff_witness:
  "length [1, 1, 0 :: real] = 1 + 2 * 1 * 1
   \<and> length [[1 :: complex]] = 1 \<and> list_all (\<lambda>row. length row = 1) [[1 :: complex]]
   \<and> (\<exists>r. cons3 1 1 [[1]] [1, 1, 0] = Inr r \<and> length r = 2 * 1\<^sup>2)
   \<and> length [1 / 2, 1 / 2, 1, 0, 1, 0 :: real] = 2 + 2 * 1 * 2
   \<and> cons3 1 2 [[1]] [1 / 2, 1 / 2, 1, 0, 1, 0] = Inl IndexError"
  using cons3_in_bounds_iff [of "[1, 1, 0]" 1 1 "[[1]]"]
    cons3_in_bounds_iff [of "[1 / 2, 1 / 2, 1, 0, 1, 0]" 2 1 "[[1]]"]
  by simp

text \<open>
  With no more states than rows of the buffer (\<open>Np \<le> Nc\<close>), the reconstruction
  residual of a matrix built from the weights and state vectors is the zero vector.
\<close>

lemma cons3_zero_on_built_rho:
  assumes "length p = Np" and "length cs = Np" and "list_all (\<lambda>c. length c = Nc) cs"
    and "Np \<le> Nc"
    and "length rho = Nc" and "list_all (\<lambda>row. length row = Nc) rho"
    and "\<forall>i<Nc. \<forall>j<Nc.
           rho ! i ! j = (\<Sum>k<Np. complex_of_real (p ! k) * cs ! k ! i * cnj (cs ! k ! j))"
  shows "cons3 Nc Np rho (encode p cs) = Inr (replicate (2 * Nc\<^sup>2) 0)"
proof -
  let ?x = "encode p cs"
  let ?c = "map (\<lambda>i. cs ! i) [0..<Np] @ replicate (Nc - Np) (replicate Nc 0)"
  let ?zeros = "(replicate (Nc\<^sup>2) (0::real), replicate (Nc\<^sup>2) (0::real))"
  have p: "slice ?x 0 Np = p"
    using assms(1) by (simp add: slice_def encode_def)
  have "\<forall>i<Np. real_to_complex (slice ?x (Np + i * 2 * Nc) (Np + i * 2 * Nc + 2 * Nc)) = Inr (cs ! i)
               \<and> length (cs ! i) = Nc"
    using assms(1-3)
    by (simp add: slice_encode real_to_complex_of_complex_to_real list_all_length)
  then have rows: "cons3_rows Nc Np ?x = Inr ?c"
    unfolding cons3_rows_def using assms(4) by (rule cons3_rows_prefix)
  have c_len: "Np \<le> length ?c" by simp
  have c_row: "\<forall>k<Np. ?c ! k = cs ! k"
    by (simp add: nth_append)
  have "\<exists>st'. for_loop [0..<Nc] (\<lambda>i. for_loop [0..<Nc] (cons3_entry Nc Np rho p ?c i)) ?zeros
               = Inr st' \<and> st' = ?zeros"
  proof (rule cons3_grid [where P = "\<lambda>st. st = ?zeros"])
    show "?zeros = ?zeros" by simp
  next
    fix i j and st :: "real list \<times> real list"
    assume i: "i < Nc" and j: "j < Nc" and st: "st = ?zeros"
    have in_rows: "\<forall>k<Np. i < length (?c ! k) \<and> j < length (?c ! k)"
      using assms(2,3) i j by (simp add: nth_append list_all_length)
    have rho: "i < length rho" "j < length (rho ! i)"
      using assms(5,6) i j by (simp_all add: list_all_length)
    have cell: "i * Nc + j < length (fst st)" "i * Nc + j < length (snd st)"
      using grid_index_bound [OF i j] st by simp_all
    let ?S = "\<Sum>k<Np. complex_of_real (p ! k) * ?c ! k ! i * cnj (?c ! k ! j)"
    have entry: "cons3_entry Nc Np rho p ?c i j st
        = Inr ((fst st)[i * Nc + j := Re (?S - rho ! i ! j)],
               (snd st)[i * Nc + j := Im (?S - rho ! i ! j)])"
      using assms(1) by (intro cons3_entry_eq c_len in_rows rho cell) simp
    have "?S = (\<Sum>k<Np. complex_of_real (p ! k) * cs ! k ! i * cnj (cs ! k ! j))"
      using c_row by (intro sum.cong) simp_all
    also have "\<dots> = rho ! i ! j"
      using assms(7) i j by simp
    finally have zero: "?S - rho ! i ! j = 0"
      by simp
    have same: "(replicate (Nc\<^sup>2) (0::real))[i * Nc + j := 0] = replicate (Nc\<^sup>2) 0"
      using grid_index_bound [OF i j] by (simp add: list_update_same_conv)
    show "\<exists>st'. cons3_entry Nc Np rho p ?c i j st = Inr st' \<and> st' = ?zeros"
      unfolding entry zero by (simp add: st same)
  qed
  then show ?thesis
    by (simp add: cons3_def p rows replicate_add [symmetric] del: replicate_add)
qed

lemma cons3_zero_on_two_states:
  "cons3 2 2 [[1 / 2, 0], [0, 1 / 2]] (encode [1 / 2, 1 / 2] [[1, 0], [0, 1]])
   = Inr (replicate (2 * 2\<^sup>2) 0)"
  using cons3_zero_on_built_rho [of "[1 / 2, 1 / 2]" 2 "[[1, 0], [0, 1]]" 2 "[[1 / 2, 0], [0, 1 / 2]]"]
  by (simp add: less_Suc_eq numeral_2_eq_2 lessThan_Suc)

text \<open>
  Claim C5 says that the reconstruction residual is the zero vector for every number
  \<open>Np\<close> of weights and unit state vectors of dimension \<open>Nc\<close>, when \<open>rho\<close> is built
  from them. With the dimension \<open>Nc = 8\<close> of three qubits and \<open>Np = 9\<close> states (nine
  weights \<open>1/9\<close>, every state the basis vector \<open>|000>\<close>, \<open>rho\<close> its projector, which
  is their weighted sum of outer products) \<open>cons3\<close> raises IndexError: the buffer has
  \<open>Nc\<close> rows, one state is written per row, and the ninth write is out of range.
\<close>

theorem cons3_nine_states_fails:
  "sum_list nine_weights = 1
   \<and> rho_000 ! 0 ! 0 = (\<Sum>k<9. complex_of_real (nine_weights ! k)
         * nine_states ! k ! 0 * cnj (nine_states ! k ! 0))
   \<and> cons3 8 9 rho_000 (encode nine_weights nine_states) = Inl IndexError"
proof -
  have "length (encode nine_weights nine_states) = 9 + 2 * 8 * 9"
    by (simp add: encode_def nine_weights_def nine_states_def basis_000_def complex_to_real_def
        length_concat sum_list_replicate)
  then have "cons3_rows 8 9 (encode nine_weights nine_states) = Inl IndexError"
    by (rule cons3_rows_out_of_range) simp
  then have "cons3 8 9 rho_000 (encode nine_weights nine_states) = Inl IndexError"
    by (simp add: cons3_def)
  moreover have "sum_list nine_weights = 1"
    by (simp add: nine_weights_def sum_list_replicate)
  moreover have "rho_000 ! 0 ! 0 = (\<Sum>k<9. complex_of_real (nine_weights ! k)
         * nine_states ! k ! 0 * cnj (nine_states ! k ! 0))"
    by (simp add: rho_000_def nine_weights_def nine_states_def basis_000_def)
  ultimately show ?thesis
    by blast
qed

end
